theory Spec2Isabelle
  imports Main "HOL-Library.Multiset" "HOL-Library.AList"
begin

section \<open>Data model\<close>

text \<open>
  \<^verbatim>\<open>utils.ts\<close>: \<^verbatim>\<open>type SizeEntry = { kb: number; path: string }\<close>. Sizes are the integers
  that \<^verbatim>\<open>runDuKb\<close> parses from the output of \<^verbatim>\<open>du -skx\<close>.
\<close>

record SizeEntry =
  kb :: int
  path :: string

text \<open>\<^verbatim>\<open>scanners.ts\<close>: \<^verbatim>\<open>type Progress = { phase: string; processed: number; total: number }\<close>.\<close>

record Progress =
  phase :: string
  processed :: nat
  total :: nat

text \<open>
  \<^verbatim>\<open>Navigator.tsx\<close>: \<^verbatim>\<open>DirStatus\<close> and \<^verbatim>\<open>DirCacheEntry\<close>. The optional fields
  \<^verbatim>\<open>dirs?\<close>, \<^verbatim>\<open>files?\<close>, \<^verbatim>\<open>lastScan?\<close>, \<^verbatim>\<open>msg?\<close> are options. The entry's own
  \<^verbatim>\<open>path\<close> field is called \<open>epath\<close> here, since \<open>path\<close> is the field of \<open>SizeEntry\<close>.
\<close>

datatype DirStatus = Unscanned | Scanning | Scanned

record DirCacheEntry =
  status :: DirStatus
  epath :: string
  alphaDirs :: "string list"
  dirs :: "SizeEntry list option"
  files :: "SizeEntry list option"
  lastScan :: "int option"
  msg :: "string option"

definition TOP_N :: nat where
  "TOP_N = 30"

definition CONCURRENCY :: nat where
  "CONCURRENCY = 6"

section \<open>Viewport and selection (\<^verbatim>\<open>Navigator.tsx\<close>)\<close>

text \<open>
  \<^verbatim>\<open>
  function adjustViewport(len, selected, currentOffset, viewSize) {
    if (len <= viewSize) return 0;
    if (selected < currentOffset) return selected; // scroll up
    if (selected >= currentOffset + viewSize) return selected - viewSize + 1; // scroll down
    return currentOffset;
  }
  \<close>
\<close>

definition adjustViewport :: "int \<Rightarrow> int \<Rightarrow> int \<Rightarrow> int \<Rightarrow> int" where
  "adjustViewport len selected currentOffset viewSize =
     (if len \<le> viewSize then 0
      else if selected < currentOffset then selected
      else if selected \<ge> currentOffset + viewSize then selected - viewSize + 1
      else currentOffset)"

text \<open>
  The navigable list holds sized entries or plain paths
  (\<^verbatim>\<open>Array<SizeEntry | string>\<close>):
  \<^verbatim>\<open>
  function getNavigableList(entry?: DirCacheEntry) {
    if (!entry) return [];
    if (entry.dirs && entry.dirs.length > 0) return entry.dirs;
    return entry.alphaDirs || [];
  }
  \<close>
\<close>

datatype item = Sized SizeEntry | Plain string

definition getNavigableList :: "DirCacheEntry option \<Rightarrow> item list" where
  "getNavigableList entry =
     (case entry of
        None \<Rightarrow> []
      | Some e \<Rightarrow>
          (case dirs e of
             Some ds \<Rightarrow> if length ds > 0 then map Sized ds else map Plain (alphaDirs e)
           | None \<Rightarrow> map Plain (alphaDirs e)))"

text \<open>
  The body of the updater passed to \<^verbatim>\<open>setSelectedIndex\<close> by the effect that depends on
  \<^verbatim>\<open>navigableLen\<close>:
  \<^verbatim>\<open>
  if (navigableLen === 0) return 0;
  return Math.max(0, Math.min(idx, navigableLen - 1));
  \<close>
\<close>

definition clampIndex :: "nat \<Rightarrow> int \<Rightarrow> int" where
  "clampIndex navigableLen idx =
     (if navigableLen = 0 then 0 else max 0 (min idx (int navigableLen - 1)))"

section \<open>Entry point (\<^verbatim>\<open>index.tsx\<close>)\<close>

text \<open>
  \<^verbatim>\<open>
  const argv = process.argv.slice(2);
  const first = argv[0];
  const legacy = first === 'dirs' || first === 'files' || first === 'nodes'
              || first === 'preset' || first === '--';
  const nonTty = !process.stdin.isTTY; // fallback to non-interactive UI when no TTY
  render(legacy || nonTty ? <App /> : <Navigator />);
  \<close>
  The module is this one statement sequence; it has no branch that exits. The outcome
  type still has the alternative of an exit with a code, so that a startup failure can
  be spoken about.
\<close>

datatype ui = App | Navigator

datatype startup = Render ui | ExitWith nat

definition legacy :: "string list \<Rightarrow> bool" where
  "legacy argv =
     (case argv of
        [] \<Rightarrow> False
      | first # _ \<Rightarrow>
          first = ''dirs'' \<or> first = ''files'' \<or> first = ''nodes''
          \<or> first = ''preset'' \<or> first = ''--'')"

definition index_main :: "string list \<Rightarrow> bool \<Rightarrow> startup" where
  "index_main argv isTTY =
     (let nonTty = \<not> isTTY
      in Render (if legacy argv \<or> nonTty then App else Navigator))"

section \<open>Persistence (\<^verbatim>\<open>persist.ts\<close>)\<close>

text \<open>
  \<^verbatim>\<open>type PersistEntry = { lastScan: number; dirs: SizeEntry[]; files: SizeEntry[] }\<close>: the
  entry that a scan saves. The fields carry the prefix \<open>p_\<close> because \<open>DirCacheEntry\<close>
  has fields of the same names.
\<close>

record PersistEntry =
  p_lastScan :: int
  p_dirs :: "SizeEntry list"
  p_files :: "SizeEntry list"

text \<open>
  The cache file is whatever \<^verbatim>\<open>cache.json\<close> holds; the annotation
  \<^verbatim>\<open>const data: PersistMap = JSON.parse(raw)\<close> checks nothing. What the two functions
  do depends on the value that \<^verbatim>\<open>JSON.parse\<close> gives, so the file is modelled by that
  value: the file is missing or does not parse (\<open>Unreadable\<close>), or it parses to
  \<^verbatim>\<open>null\<close>, to a number or a truth value (\<open>TopPrimitive\<close>), to a string (of
  the given length), to an array, or to an object (its members, with distinct keys, in
  any order).

  Of a member of the object, or an element of the array, the code reads
  \<^verbatim>\<open>val.dirs\<close>, \<^verbatim>\<open>val.files\<close> and \<^verbatim>\<open>val.lastScan\<close>, and nothing else. Reading
  them from \<^verbatim>\<open>null\<close> throws; from any other value it gives the member or
  \<^verbatim>\<open>undefined\<close>. So a value is \<open>SNull\<close>, or \<open>SVal\<close> with the three members it
  has (\<open>None\<close> for one it lacks; a number, a string or an array has none of them). A
  member that is there is taken to have its TypeScript type; the code passes it on
  without looking at it.

  \<^verbatim>\<open>JSON.stringify\<close> followed by \<^verbatim>\<open>JSON.parse\<close> gives back the value written,
  with \<^verbatim>\<open>null\<close> in the holes of an array. The module is an ES module, so its code
  is strict: an assignment that fails throws.
\<close>

record stored_fields =
  s_lastScan :: "int option"
  s_dirs :: "SizeEntry list option"
  s_files :: "SizeEntry list option"

datatype stored = SNull | SVal stored_fields

datatype cache_file =
    Unreadable
  | TopNull
  | TopPrimitive
  | TopString nat
  | TopArray "stored list"
  | TopObject "(string \<times> stored) list"

datatype io_error = WriteFailed | TypeError | RangeError

text \<open>
  The own keys of an array (and of a string) are its array indices: the canonical
  decimal numerals of the numbers up to \<open>2^32 - 2\<close>.
\<close>

definition is_digit :: "char \<Rightarrow> bool" where
  "is_digit c = (48 \<le> (of_char c :: nat) \<and> (of_char c :: nat) \<le> 57)"

definition decimal_value :: "string \<Rightarrow> nat" where
  "decimal_value k = foldl (\<lambda>a c. 10 * a + (of_char c - 48)) 0 k"

definition array_index :: "string \<Rightarrow> nat option" where
  "array_index k =
     (if k \<noteq> [] \<and> list_all is_digit k \<and> (k = ''0'' \<or> hd k \<noteq> CHR ''0'')
         \<and> decimal_value k \<le> 4294967294
      then Some (decimal_value k) else None)"





text \<open>
  \<^verbatim>\<open>
  export async function saveCacheToDisk(dirPath: string, entry: PersistEntry) {
    let data: PersistMap = {};
    try { data = JSON.parse(fs.readFileSync(file, 'utf8')); } catch {}
    data[dirPath] = entry;
    fs.writeFileSync(file, JSON.stringify(data, null, 2));
  }
  \<close>
  The assignment \<^verbatim>\<open>data[dirPath] = entry\<close>:
  \<^item> on \<^verbatim>\<open>null\<close> it throws a TypeError;
  \<^item> on a number, a truth value or a string it throws a TypeError, except for the key
    \<^verbatim>\<open>__proto__\<close>, whose setter returns without doing anything;
  \<^item> on an array, the key \<^verbatim>\<open>length\<close> throws a RangeError, an array index sets that
    element (the array grows, with holes, when the index is beyond its end), and any
    other key sets a property that \<^verbatim>\<open>JSON.stringify\<close> does not write;
  \<^item> on an object it sets the member, except for the key \<^verbatim>\<open>__proto__\<close> when the
    object has no member of that name: then the setter changes the prototype, and
    \<^verbatim>\<open>JSON.stringify\<close> writes the members as they were.
  Producing and writing the text can fail (\<^verbatim>\<open>JSON.stringify\<close> throws when the text
  would be longer than a string can be, \<^verbatim>\<open>fs.writeFileSync\<close> throws when the file
  cannot be written); whether they succeed is the input \<open>writable\<close>. \<open>assign\<close> is only applied to a value that was parsed or to
  the empty object that \<^verbatim>\<open>data\<close> starts as; on \<open>Unreadable\<close> it does what it does
  on the empty object.
\<close>

definition as_stored :: "PersistEntry \<Rightarrow> stored" where
  "as_stored entry =
     SVal \<lparr>s_lastScan = Some (p_lastScan entry), s_dirs = Some (p_dirs entry),
           s_files = Some (p_files entry)\<rparr>"

definition assign :: "cache_file \<Rightarrow> string \<Rightarrow> stored \<Rightarrow> io_error + cache_file" where
  "assign data dirPath v =
     (case data of
        Unreadable \<Rightarrow> Inr (TopObject (if dirPath = ''__proto__'' then [] else [(dirPath, v)]))
      | TopNull \<Rightarrow> Inl TypeError
      | TopPrimitive \<Rightarrow> if dirPath = ''__proto__'' then Inr TopPrimitive else Inl TypeError
      | TopString n \<Rightarrow> if dirPath = ''__proto__'' then Inr (TopString n) else Inl TypeError
      | TopArray xs \<Rightarrow>
          if dirPath = ''length'' then Inl RangeError
          else (case array_index dirPath of
                  None \<Rightarrow> Inr (TopArray xs)
                | Some i \<Rightarrow>
                    Inr (TopArray (if i < length xs then xs[i := v]
                                   else xs @ replicate (i - length xs) SNull @ [v])))
      | TopObject kvs \<Rightarrow>
          if dirPath = ''__proto__'' \<and> map_of kvs dirPath = None then Inr (TopObject kvs)
          else Inr (TopObject (AList.update dirPath v kvs)))"

definition saveCacheToDisk ::
  "bool \<Rightarrow> cache_file \<Rightarrow> string \<Rightarrow> PersistEntry \<Rightarrow> io_error + cache_file" where
  "saveCacheToDisk writable file dirPath entry =
     (let data = (case file of Unreadable \<Rightarrow> TopObject [] | _ \<Rightarrow> file)
      in case assign data dirPath (as_stored entry) of
           Inl e \<Rightarrow> Inl e
         | Inr data' \<Rightarrow> if writable then Inr data' else Inl WriteFailed)"



section \<open>The worker pool (\<^verbatim>\<open>measureDirs\<close> in \<^verbatim>\<open>Navigator.tsx\<close>)\<close>

text \<open>
  \<^verbatim>\<open>
  async function measureDirs(dirs, onProgress) {
    const total = dirs.length;
    onProgress?.({phase: 'measuring', processed: 0, total});
    const results: SizeEntry[] = [];
    let idx = 0;
    async function worker() {
      while (true) {
        const i = idx++;
        if (i >= total) break;
        const d = dirs[i];
        const kb = await runDuKb(d);
        results.push({kb, path: d});
        onProgress?.({phase: 'measuring', processed: results.length, total});
      }
    }
    const workers = Array.from({length: Math.min(CONCURRENCY, Math.max(1, total))}, () => worker());
    await Promise.all(workers);
    results.sort((a, b) => b.kb - a.kb);
    return results;
  }
  \<close>
  The pool's state is the shared cursor \<open>idx\<close>, the \<open>results\<close> array, and for each
  worker what it awaits: \<open>Some i\<close> while \<^verbatim>\<open>runDuKb(dirs[i])\<close> is in flight, \<open>None\<close> once
  the worker has left its loop. The order in which the measurements resolve, and the
  size each one returns, is the schedule: a list of pairs (worker, kb).
\<close>

record pool =
  idx :: nat
  awaiting :: "nat option list"
  results :: "SizeEntry list"

text \<open>Worker \<open>w\<close> at the head of its loop: \<^verbatim>\<open>const i = idx++; if (i >= total) break;\<close>
  and then the call of \<^verbatim>\<open>runDuKb(dirs[i])\<close>, at which the worker is suspended.\<close>

definition worker_loop :: "nat \<Rightarrow> nat \<Rightarrow> pool \<Rightarrow> pool" where
  "worker_loop tot w P =
     (let i = idx P
      in P\<lparr>idx := i + 1,
           awaiting := (awaiting P)[w := (if i \<ge> tot then None else Some i)]\<rparr>)"

text \<open>One call \<^verbatim>\<open>worker()\<close> made by \<^verbatim>\<open>Array.from\<close>: it runs up to its first await.\<close>

definition spawn_worker :: "nat \<Rightarrow> pool \<Rightarrow> pool" where
  "spawn_worker tot P =
     worker_loop tot (length (awaiting P)) (P\<lparr>awaiting := awaiting P @ [None]\<rparr>)"

definition pool_start :: "string list \<Rightarrow> pool" where
  "pool_start ds =
     (let tot = length ds
      in fold (\<lambda>_. spawn_worker tot) [0 ..< min CONCURRENCY (max 1 tot)]
           \<lparr>idx = 0, awaiting = [], results = []\<rparr>)"

text \<open>The measurement awaited by worker \<open>w\<close> resolves with \<open>k\<close>: the result is pushed and
  the worker goes round its loop. A worker that awaits nothing cannot resume.\<close>

definition measured :: "string list \<Rightarrow> nat \<times> int \<Rightarrow> pool \<Rightarrow> pool" where
  "measured ds c P =
     (case c of
        (w, k) \<Rightarrow>
          if w < length (awaiting P) then
            (case awaiting P ! w of
               None \<Rightarrow> P
             | Some i \<Rightarrow>
                 worker_loop (length ds) w
                   (P\<lparr>results := results P @ [\<lparr>kb = k, path = ds ! i\<rparr>]\<rparr>))
          else P)"

text \<open>
  \<^verbatim>\<open>Promise.all(workers)\<close> resolves once every worker has left its loop; until then
  \<open>measureDirs\<close> has no value. \<^verbatim>\<open>Array.prototype.sort\<close> is stable, as \<open>sort_key\<close>
  is, and the comparator \<^verbatim>\<open>b.kb - a.kb\<close> orders by descending \<open>kb\<close>.
\<close>

definition all_done :: "pool \<Rightarrow> bool" where
  "all_done P = list_all (\<lambda>a. a = None) (awaiting P)"

definition measureDirs :: "string list \<Rightarrow> (nat \<times> int) list \<Rightarrow> SizeEntry list option" where
  "measureDirs ds sched =
     (let P = fold (measured ds) sched (pool_start ds)
      in if all_done P then Some (sort_key (\<lambda>e. - kb e) (results P)) else None)"

text \<open>
  For the proofs about the pool: the indices whose measurement is in flight, and the
  invariant that the directories measured or in flight are exactly the first \<open>idx\<close>
  ones, that every index in flight is in range, and that the cursor has passed the end
  once a worker has left its loop.
\<close>

definition in_flight :: "pool \<Rightarrow> nat multiset" where
  "in_flight P = mset (List.map_filter (\<lambda>a. a) (awaiting P))"

definition pool_inv :: "string list \<Rightarrow> pool \<Rightarrow> bool" where
  "pool_inv ds P =
     ((\<forall>i \<in># in_flight P. i < length ds)
      \<and> image_mset ((!) ds) (in_flight P) + mset (map path (results P)) = mset (take (idx P) ds)
      \<and> (None \<in> set (awaiting P) \<longrightarrow> length ds \<le> idx P))"

section \<open>The Navigator's state\<close>

text \<open>
  Node's \<^verbatim>\<open>path.dirname\<close> (POSIX), a library function: trailing slashes are skipped,
  then the last component is dropped; a path with no directory part gives \<^verbatim>\<open>"/"\<close> if
  it is rooted and \<^verbatim>\<open>"."\<close> otherwise; \<^verbatim>\<open>"//x"\<close> gives \<^verbatim>\<open>"//"\<close>.
\<close>

definition dirname :: "string \<Rightarrow> string" where
  "dirname p =
     (if p = [] then ''.''
      else
        let hasRoot = (hd p = CHR ''/'');
            r = dropWhile (\<lambda>c. c \<noteq> CHR ''/'') (dropWhile (\<lambda>c. c = CHR ''/'') (rev (tl p)));
            e = length r
        in if r = [] then (if hasRoot then ''/'' else ''.'')
           else if hasRoot \<and> e = 1 then ''//''
           else take e p)"

text \<open>
  The state of the component: the \<^verbatim>\<open>useState\<close> cells, the counter
  \<^verbatim>\<open>scanSeqRef.current\<close>, the content of the cache file, and the invocations of
  \<^verbatim>\<open>triggerScan\<close> that are suspended at an await. Such an invocation holds its closure
  variables: \<^verbatim>\<open>p\<close>, \<^verbatim>\<open>force\<close>, \<^verbatim>\<open>lastDirsTs\<close>, and where it is suspended:
  at line 196 (\<open>Listing\<close>), in \<^verbatim>\<open>measureDirs(alpha, ...)\<close> at line 200
  (\<open>Measuring alpha\<close>), or at \<^verbatim>\<open>runDuKb(p)\<close> of line 225 (\<open>Refreshing\<close>). Its own
  sequence token \<^verbatim>\<open>mySeq\<close> is its key in \<open>tasks\<close>. The counter is a natural number
  (a JavaScript number stops counting at \<open>2^53\<close>; no session gets there). When a pool
  has thrown, the invocation is over, but the workers that were measuring run on and
  still call the progress callback, which holds \<^verbatim>\<open>mySeq\<close> and \<^verbatim>\<open>lastDirsTs\<close>: that
  is the stage \<open>Detached\<close>.

  \<open>removals\<close> holds the invocations of \<^verbatim>\<open>confirmDelete\<close> that are suspended at
  \<^verbatim>\<open>await fs.promises.rm(...)\<close>, each with its \<^verbatim>\<open>targetPath\<close> and with the
  \<^verbatim>\<open>currentPath\<close> that its closure holds: the current path of the render in which the
  key was handled.
\<close>

datatype stage = Listing | Measuring "string list" | Refreshing | Detached

record scan_task =
  tpath :: string
  tforce :: bool
  tstage :: stage
  lastDirsTs :: int

datatype prompt_status = Confirm | Working

record DeletePrompt =
  dpath :: string
  label :: string
  pstatus :: prompt_status
  perror :: "string option"

record nav =
  currentPath :: string
  selectedIndex :: int
  cache :: "string \<rightharpoonup> DirCacheEntry"
  progressDirs :: "Progress option"
  elapsedStart :: int
  currentSizeKb :: "int option"
  deletePrompt :: "DeletePrompt option"
  viewOffset :: int
  scanSeq :: nat
  tasks :: "nat \<rightharpoonup> scan_task"
  cacheFile :: cache_file
  removals :: "(string \<times> string) list"

section \<open>The scan coordinator (\<^verbatim>\<open>triggerScan\<close>, lines 181 to 241)\<close>

text \<open>The message \<^verbatim>\<open>'Scanning...'\<close>, whose last character is U+2026 (three bytes in UTF-8).\<close>

definition scanning_msg :: string where
  "scanning_msg = ''Scanning'' @ [CHR 0xE2, CHR 0x80, CHR 0xA6]"

text \<open>
  The updater of the first \<^verbatim>\<open>setCache\<close> (lines 183 to 192):
  \<^verbatim>\<open>
  const ent = next.get(p);
  if (!ent) return prev;
  if (ent.status === 'scanning') return prev;
  if (!force && ent.status === 'scanned') return prev;
  ent.status = 'scanning'; ent.msg = 'Scanning...';
  return next;
  \<close>
\<close>

definition markScanning ::
  "string \<Rightarrow> bool \<Rightarrow> (string \<rightharpoonup> DirCacheEntry) \<Rightarrow> (string \<rightharpoonup> DirCacheEntry)" where
  "markScanning p force prev =
     (case prev p of
        None \<Rightarrow> prev
      | Some ent \<Rightarrow>
          if status ent = Scanning then prev
          else if \<not> force \<and> status ent = Scanned then prev
          else prev(p \<mapsto> ent\<lparr>status := Scanning, msg := Some scanning_msg\<rparr>))"

text \<open>
  The call \<^verbatim>\<open>triggerScan(p, force)\<close> up to its first await:
  \<^verbatim>\<open>const mySeq = ++scanSeqRef.current;\<close>, the \<^verbatim>\<open>setCache\<close> above, and the
  invocation is left suspended. Which list \<^verbatim>\<open>alpha\<close> line 196 obtains (the
  \<^verbatim>\<open>alphaDirs\<close> of the entry in the rendering closure's \<^verbatim>\<open>cache\<close>, or the result of
  \<^verbatim>\<open>listDirsViaFind(p)\<close>) is given by the event \<open>Listed\<close> that resumes it.
\<close>

definition triggerScan :: "string \<Rightarrow> bool \<Rightarrow> nav \<Rightarrow> nav" where
  "triggerScan p force s =
     (let mySeq = scanSeq s + 1
      in s\<lparr>scanSeq := mySeq,
           cache := markScanning p force (cache s),
           tasks := (tasks s)(mySeq \<mapsto>
             \<lparr>tpath = p, tforce = force, tstage = Listing, lastDirsTs = 0\<rparr>)\<rparr>)"

text \<open>
  The \<^verbatim>\<open>finally\<close> block (lines 236 to 240), after which the invocation is over:
  \<^verbatim>\<open>if (scanSeqRef.current === mySeq) setProgressDirs(null);\<close>
\<close>

definition finallyBlock :: "nat \<Rightarrow> nav \<Rightarrow> nav" where
  "finallyBlock mySeq s =
     (let s' = (if scanSeq s = mySeq then s\<lparr>progressDirs := None\<rparr> else s)
      in s'\<lparr>tasks := (tasks s')(mySeq := None)\<rparr>)"

text \<open>
  The progress callback handed to \<^verbatim>\<open>measureDirs\<close> (lines 200 to 207):
  \<^verbatim>\<open>
  if (scanSeqRef.current !== mySeq) return; // stale
  const now = Date.now();
  if (now - lastDirsTs > 150 || prog.processed === prog.total) {
    setProgressDirs(prog); lastDirsTs = now;
  }
  \<close>
\<close>

definition onProgress :: "nat \<Rightarrow> Progress \<Rightarrow> int \<Rightarrow> nav \<Rightarrow> nav" where
  "onProgress mySeq prog now s =
     (case tasks s mySeq of
        None \<Rightarrow> s
      | Some t \<Rightarrow>
          if scanSeq s \<noteq> mySeq then s
          else if now - lastDirsTs t > 150 \<or> processed prog = total prog then
            s\<lparr>progressDirs := Some prog,
              tasks := (tasks s)(mySeq \<mapsto> t\<lparr>lastDirsTs := now\<rparr>)\<rparr>
          else s)"

text \<open>
  Lines 196 to 200, once \<^verbatim>\<open>alpha\<close> is there:
  \<^verbatim>\<open>
  if (scanSeqRef.current !== mySeq) return; // stale
  setProgressDirs({phase:'measuring', processed:0, total: alpha.length});
  let lastDirsTs = 0;
  const dirSizes = await measureDirs(alpha, (prog) => ...);
  \<close>
  \<^verbatim>\<open>measureDirs\<close> reports \<^verbatim>\<open>processed: 0\<close> before it starts its workers.
\<close>

definition listed :: "nat \<Rightarrow> string list \<Rightarrow> int \<Rightarrow> nav \<Rightarrow> nav" where
  "listed mySeq alpha now s =
     (case tasks s mySeq of
        None \<Rightarrow> s
      | Some t \<Rightarrow>
          (case tstage t of
             Listing \<Rightarrow>
               if scanSeq s \<noteq> mySeq then finallyBlock mySeq s
               else
                 let p0 = \<lparr>phase = ''measuring'', processed = 0, total = length alpha\<rparr>
                 in onProgress mySeq p0 now
                      (s\<lparr>progressDirs := Some p0,
                         tasks := (tasks s)(mySeq \<mapsto> t\<lparr>tstage := Measuring alpha\<rparr>)\<rparr>)
           | _ \<Rightarrow> s))"

text \<open>
  The updater of the second \<^verbatim>\<open>setCache\<close> (lines 210 to 221):
  \<^verbatim>\<open>
  const ent = next.get(p);
  if (ent) {
    ent.status = 'scanned'; ent.msg = undefined;
    ent.dirs = dirSizes.slice(0, TOP_N); ent.files = [];
    ent.lastScan = Date.now();
  }
  return next;
  \<close>
\<close>

definition commitResults ::
  "string \<Rightarrow> SizeEntry list \<Rightarrow> int \<Rightarrow> (string \<rightharpoonup> DirCacheEntry) \<Rightarrow> (string \<rightharpoonup> DirCacheEntry)" where
  "commitResults p dirSizes now prev =
     (case prev p of
        None \<Rightarrow> prev
      | Some ent \<Rightarrow>
          prev(p \<mapsto> ent\<lparr>status := Scanned, msg := None,
                         dirs := Some (take TOP_N dirSizes), files := Some [],
                         lastScan := Some now\<rparr>))"

text \<open>
  Lines 209 to 225, when \<^verbatim>\<open>measureDirs\<close> has resolved with \<^verbatim>\<open>dirSizes\<close>:
  \<^verbatim>\<open>
  if (scanSeqRef.current !== mySeq) return; // stale
  setCache(...);
  try { await saveCacheToDisk(p, {dirs: dirSizes.slice(0, TOP_N), files: [],
                                  lastScan: Date.now()}); } catch {}
  try { const kb = await runDuKb(p); ... } catch {}
  \<close>
  The two calls of \<^verbatim>\<open>Date.now()\<close> give \<open>now\<close> and \<open>now'\<close>. The body of
  \<^verbatim>\<open>saveCacheToDisk\<close> has no await, so the file is written in this same step.
\<close>

definition poolDone :: "nat \<Rightarrow> (nat \<times> int) list \<Rightarrow> int \<Rightarrow> int \<Rightarrow> bool \<Rightarrow> nav \<Rightarrow> nav" where
  "poolDone mySeq sched now now' writable s =
     (case tasks s mySeq of
        None \<Rightarrow> s
      | Some t \<Rightarrow>
          (case tstage t of
             Measuring alpha \<Rightarrow>
               (case measureDirs alpha sched of
                  None \<Rightarrow> s
                | Some dirSizes \<Rightarrow>
                    if scanSeq s \<noteq> mySeq then finallyBlock mySeq s
                    else
                      s\<lparr>cache := commitResults (tpath t) dirSizes now (cache s),
                        cacheFile :=
                          (case saveCacheToDisk writable (cacheFile s) (tpath t)
                                  \<lparr>p_lastScan = now', p_dirs = take TOP_N dirSizes, p_files = []\<rparr> of
                             Inl _ \<Rightarrow> cacheFile s
                           | Inr f \<Rightarrow> f),
                        tasks := (tasks s)(mySeq \<mapsto> t\<lparr>tstage := Refreshing\<rparr>)\<rparr>)
           | _ \<Rightarrow> s))"

text \<open>
  Line 225 and the \<^verbatim>\<open>finally\<close> block:
  \<^verbatim>\<open>try { const kb = await runDuKb(p); if (scanSeqRef.current === mySeq) setCurrentSizeKb(kb); } catch {}\<close>
  \<open>None\<close> is the case that the measurement throws.
\<close>

definition sizeRefreshed :: "nat \<Rightarrow> int option \<Rightarrow> nav \<Rightarrow> nav" where
  "sizeRefreshed mySeq k s =
     (case tasks s mySeq of
        None \<Rightarrow> s
      | Some t \<Rightarrow>
          (case tstage t of
             Refreshing \<Rightarrow>
               finallyBlock mySeq
                 (case k of
                    None \<Rightarrow> s
                  | Some v \<Rightarrow> if scanSeq s = mySeq then s\<lparr>currentSizeKb := Some v\<rparr> else s)
           | _ \<Rightarrow> s))"

text \<open>
  The \<^verbatim>\<open>catch\<close> block (lines 226 to 235), entered when the listing or the pool throws
  (after line 221 every await is inside its own \<^verbatim>\<open>try\<close>), and then \<^verbatim>\<open>finally\<close>,
  after which the invocation is over:
  \<^verbatim>\<open>
  setCache((prev) => {
    const next = new Map(prev);
    const ent = next.get(p);
    if (ent) { ent.status = 'unscanned'; ent.msg = `Scan failed: ${e?.message || e}`; }
    return next;
  });
  \<close>
\<close>

definition markFailed ::
  "string \<Rightarrow> string \<Rightarrow> (string \<rightharpoonup> DirCacheEntry) \<Rightarrow> (string \<rightharpoonup> DirCacheEntry)" where
  "markFailed p err prev =
     (case prev p of
        None \<Rightarrow> prev
      | Some ent \<Rightarrow> prev(p \<mapsto> ent\<lparr>status := Unscanned, msg := Some (''Scan failed: '' @ err)\<rparr>))"

definition catchBlock :: "nat \<Rightarrow> string \<Rightarrow> nav \<Rightarrow> nav" where
  "catchBlock mySeq err s =
     (case tasks s mySeq of
        None \<Rightarrow> s
      | Some t \<Rightarrow> finallyBlock mySeq (s\<lparr>cache := markFailed (tpath t) err (cache s)\<rparr>))"

text \<open>
  When the \<^verbatim>\<open>try\<close> block can throw. The promises of \<^verbatim>\<open>listDirsViaFind\<close> and of
  \<^verbatim>\<open>runDuKb\<close> (\<^verbatim>\<open>scanners.ts\<close>) are settled by \<^verbatim>\<open>resolve\<close> only, on the
  child's \<^verbatim>\<open>close\<close> and \<^verbatim>\<open>error\<close> events; they reject only when \<^verbatim>\<open>spawn\<close>
  throws inside the promise's executor, that is at the moment the function is called.
  So an invocation of \<^verbatim>\<open>triggerScan\<close> reaches its \<^verbatim>\<open>catch\<close> block at one of three
  moments, and in each through microtasks only, before any other event:
  \<^item> in the call itself, when \<^verbatim>\<open>listDirsViaFind(p)\<close> is called and throws;
  \<^item> when the pool is started and a call of \<^verbatim>\<open>runDuKb\<close> by one of its first workers
    throws;
  \<^item> when a measurement resolves and the worker that resumes calls \<^verbatim>\<open>runDuKb\<close>
    for the next directory, which throws. That needs a directory that no worker has
    taken yet, so more than \<open>CONCURRENCY\<close> directories.
\<close>

definition triggerScanThrows :: "string \<Rightarrow> bool \<Rightarrow> string \<Rightarrow> nav \<Rightarrow> nav" where
  "triggerScanThrows p force err s =
     (let s1 = triggerScan p force s
      in catchBlock (scanSeq s1) err s1)"

text \<open>The pool has thrown: \<^verbatim>\<open>catch\<close> and \<^verbatim>\<open>finally\<close> run, the workers run on.\<close>

definition poolThrows :: "nat \<Rightarrow> string \<Rightarrow> nav \<Rightarrow> nav" where
  "poolThrows mySeq err s =
     (case tasks s mySeq of
        None \<Rightarrow> s
      | Some t \<Rightarrow>
          (catchBlock mySeq err s)\<lparr>tasks := (tasks s)(mySeq \<mapsto> t\<lparr>tstage := Detached\<rparr>)\<rparr>)"

text \<open>
  Lines 196 to 200 when a first worker's \<^verbatim>\<open>runDuKb\<close> throws. After a stale return
  no worker is started, and an empty list has no directory to measure.
\<close>

definition listedThrows :: "nat \<Rightarrow> string list \<Rightarrow> int \<Rightarrow> string \<Rightarrow> nav \<Rightarrow> nav" where
  "listedThrows mySeq alpha now err s =
     (case tasks s mySeq of
        None \<Rightarrow> s
      | Some t \<Rightarrow>
          (case tstage t of
             Listing \<Rightarrow>
               if scanSeq s \<noteq> mySeq \<or> alpha = [] then listed mySeq alpha now s
               else poolThrows mySeq err (listed mySeq alpha now s)
           | _ \<Rightarrow> s))"

text \<open>
  The measurements of \<open>sched\<close> have resolved, in that order; the worker resumed by the
  last of them takes the next index, which is still below \<^verbatim>\<open>total\<close>, and its call of
  \<^verbatim>\<open>runDuKb\<close> throws. The worker's promise rejects, so \<^verbatim>\<open>Promise.all\<close> and
  \<^verbatim>\<open>measureDirs\<close> reject, and \<^verbatim>\<open>triggerScan\<close> enters its \<^verbatim>\<open>catch\<close> block. (The
  progress reports of the measurements are events \<open>OnProgress\<close> of their own.)
\<close>

definition spawn_throws :: "string list \<Rightarrow> (nat \<times> int) list \<Rightarrow> bool" where
  "spawn_throws alpha sched =
     (case rev sched of
        [] \<Rightarrow> False
      | c # before \<Rightarrow>
          (let P = fold (measured alpha) (rev before) (pool_start alpha)
           in fst c < length (awaiting P) \<and> awaiting P ! fst c \<noteq> None
              \<and> idx P < length alpha))"

definition scanFailed :: "nat \<Rightarrow> (nat \<times> int) list \<Rightarrow> string \<Rightarrow> nav \<Rightarrow> nav" where
  "scanFailed mySeq sched err s =
     (case tasks s mySeq of
        None \<Rightarrow> s
      | Some t \<Rightarrow>
          (case tstage t of
             Measuring alpha \<Rightarrow> if spawn_throws alpha sched then poolThrows mySeq err s else s
           | _ \<Rightarrow> s))"

section \<open>Deletion (\<^verbatim>\<open>confirmDelete\<close>, lines 253 to 283)\<close>

text \<open>
  Line 254 and the call \<^verbatim>\<open>fs.promises.rm(targetPath, {recursive: true, force: true})\<close>,
  at which the invocation is suspended. Its closure holds \<^verbatim>\<open>currentPath\<close> of the
  render in which the key was handled.
\<close>

definition confirmDelete :: "string \<Rightarrow> nav \<Rightarrow> nav" where
  "confirmDelete targetPath s =
     s\<lparr>deletePrompt :=
         map_option (\<lambda>prev. prev\<lparr>pstatus := Working, perror := None\<rparr>) (deletePrompt s),
       removals := removals s @ [(targetPath, currentPath s)]\<rparr>"

text \<open>
  The updater of \<^verbatim>\<open>setCache\<close> at lines 258 to 268:
  \<^verbatim>\<open>
  next.delete(targetPath);
  const parent = path.dirname(targetPath);
  const parentEntry = next.get(parent);
  if (parentEntry) {
    parentEntry.alphaDirs = parentEntry.alphaDirs.filter((d) => d !== targetPath);
    if (parentEntry.dirs) parentEntry.dirs = parentEntry.dirs.filter((d) => d.path !== targetPath);
  }
  return next;
  \<close>
\<close>

definition removeFromCache ::
  "string \<Rightarrow> (string \<rightharpoonup> DirCacheEntry) \<Rightarrow> (string \<rightharpoonup> DirCacheEntry)" where
  "removeFromCache targetPath prev =
     (let next = prev(targetPath := None);
          parent = dirname targetPath
      in case next parent of
           None \<Rightarrow> next
         | Some parentEntry \<Rightarrow>
             next(parent \<mapsto> parentEntry
               \<lparr>alphaDirs := filter (\<lambda>d. d \<noteq> targetPath) (alphaDirs parentEntry),
                dirs := map_option (filter (\<lambda>d. path d \<noteq> targetPath)) (dirs parentEntry)\<rparr>))"

text \<open>
  Lines 257 to 279, when the removal has succeeded. \<open>cur\<close> is the \<^verbatim>\<open>currentPath\<close> of
  the invocation's closure; the state's current path may have changed since.
  \<^verbatim>\<open>
  setDeletePrompt(null);
  setCache(...);
  if (currentPath === targetPath) {
    const parent = path.dirname(targetPath);
    if (parent && parent !== targetPath) {
      setCurrentPath(parent); setSelectedIndex(0); setViewOffset(0);
    }
  }
  setElapsedStart(Date.now());
  void triggerScan(currentPath === targetPath ? path.dirname(targetPath) : currentPath, true);
  \<close>
\<close>

definition deleteSucceeded :: "string \<Rightarrow> string \<Rightarrow> int \<Rightarrow> nav \<Rightarrow> nav" where
  "deleteSucceeded targetPath cur now s =
     (if (targetPath, cur) \<notin> set (removals s) then s
      else
        let s0 = s\<lparr>removals := remove1 (targetPath, cur) (removals s)\<rparr>;
            s1 = s0\<lparr>deletePrompt := None, cache := removeFromCache targetPath (cache s0)\<rparr>;
            parent = dirname targetPath;
            s2 = (if cur = targetPath \<and> parent \<noteq> [] \<and> parent \<noteq> targetPath
                  then s1\<lparr>currentPath := parent, selectedIndex := 0, viewOffset := 0\<rparr>
                  else s1);
            s3 = s2\<lparr>elapsedStart := now\<rparr>
        in triggerScan (if cur = targetPath then dirname targetPath else cur) True s3)"

text \<open>Line 281, when the removal has thrown.\<close>

definition deleteFailed :: "string \<Rightarrow> string \<Rightarrow> string \<Rightarrow> nav \<Rightarrow> nav" where
  "deleteFailed targetPath cur err s =
     (if (targetPath, cur) \<notin> set (removals s) then s
      else
        s\<lparr>removals := remove1 (targetPath, cur) (removals s),
          deletePrompt :=
            map_option (\<lambda>prev. prev\<lparr>pstatus := Confirm, perror := Some err\<rparr>) (deletePrompt s)\<rparr>)"

section \<open>Keys (\<^verbatim>\<open>useInput\<close>, lines 293 to 390)\<close>

text \<open>
  Of the input handler, the keys \<^verbatim>\<open>n\<close>, \<^verbatim>\<open>y\<close>, \<^verbatim>\<open>d\<close> and the left arrow. First the
  prompt's keys and the left arrow:
  \<^verbatim>\<open>
  if (deletePrompt) {
    if (key.escape || input === 'n') { setDeletePrompt(null); return; }
    if ((input && input.toLowerCase() === 'y') || key.return) {
      if (deletePrompt.status !== 'working') { void confirmDelete(deletePrompt.path); }
    }
    return;
  }
  ...
  } else if (key.leftArrow || input === 'b') {
    const parent = path.dirname(currentPath);
    if (parent && parent !== currentPath) {
      const cameFrom = currentPath;
      setCurrentPath(parent); setSelectedIndex(0); setViewOffset(0);
      setElapsedStart(Date.now());
      void triggerScan(parent, true);
      setTimeout(() => { ... if (idx >= 0) setSelectedIndex(idx); }, 0);
    }
  }
  \<close>
  The branch that closes the prompt does not look at the prompt's status: \<^verbatim>\<open>n\<close> closes
  it also while the removal is running. Without a prompt, \<^verbatim>\<open>n\<close> and \<^verbatim>\<open>y\<close> match no
  branch.
\<close>

definition keyN :: "nav \<Rightarrow> nav" where
  "keyN s = (case deletePrompt s of None \<Rightarrow> s | Some _ \<Rightarrow> s\<lparr>deletePrompt := None\<rparr>)"

definition keyY :: "nav \<Rightarrow> nav" where
  "keyY s =
     (case deletePrompt s of
        None \<Rightarrow> s
      | Some pr \<Rightarrow> if pstatus pr \<noteq> Working then confirmDelete (dpath pr) s else s)"

definition keyLeft :: "int \<Rightarrow> nav \<Rightarrow> nav" where
  "keyLeft now s =
     (case deletePrompt s of
        Some _ \<Rightarrow> s
      | None \<Rightarrow>
          let parent = dirname (currentPath s)
          in if parent \<noteq> [] \<and> parent \<noteq> currentPath s
             then triggerScan parent True
                    (s\<lparr>currentPath := parent, selectedIndex := 0, viewOffset := 0,
                       elapsedStart := now\<rparr>)
             else s)"

text \<open>
  The key \<^verbatim>\<open>d\<close> (lines 369 to 374), with \<^verbatim>\<open>basenameNoSlash\<close> (lines 25 to 28) and
  Node's \<^verbatim>\<open>path.basename\<close> (POSIX): the last component, trailing slashes skipped.
  \<^verbatim>\<open>
  const normalizedIndex = len ? Math.min(selectedIndex, len - 1) : 0;
  ...
  if (!len || !list[normalizedIndex]) return;
  const sel = list[normalizedIndex];
  const targetPath = typeof sel === 'string' ? sel : (sel as SizeEntry).path;
  const label = basenameNoSlash(targetPath);
  setDeletePrompt({path: targetPath, label, status: 'confirm'});
  \<close>
  \<^verbatim>\<open>list[normalizedIndex]\<close> is \<^verbatim>\<open>undefined\<close> for a negative index, and the empty
  string is falsy as well.
\<close>

definition basename :: "string \<Rightarrow> string" where
  "basename p =
     rev (takeWhile (\<lambda>c. c \<noteq> CHR ''/'') (dropWhile (\<lambda>c. c = CHR ''/'') (rev p)))"

definition basenameNoSlash :: "string \<Rightarrow> string" where
  "basenameNoSlash p = (let b = basename p in if b \<noteq> [] then b else p)"

definition item_path :: "item \<Rightarrow> string" where
  "item_path v = (case v of Plain p \<Rightarrow> p | Sized e \<Rightarrow> path e)"

definition keyD :: "nav \<Rightarrow> nav" where
  "keyD s =
     (case deletePrompt s of
        Some _ \<Rightarrow> s
      | None \<Rightarrow>
          let list = getNavigableList (cache s (currentPath s));
              len = length list;
              normalizedIndex = (if len \<noteq> 0 then min (selectedIndex s) (int len - 1) else 0)
          in if len = 0 \<or> normalizedIndex < 0 \<or> list ! nat normalizedIndex = Plain [] then s
             else
               let targetPath = item_path (list ! nat normalizedIndex)
               in s\<lparr>deletePrompt :=
                      Some \<lparr>dpath = targetPath, label = basenameNoSlash targetPath,
                            pstatus = Confirm, perror = None\<rparr>\<rparr>)"

text \<open>
  The timer that the left arrow sets (lines 338 to 345):
  \<^verbatim>\<open>
  const pe = cache.get(parent);
  const arr = getNavigableList(pe);
  if (arr && arr.length) {
    const idx = arr.findIndex((v) => (typeof v === 'string' ? v : v.path) === cameFrom);
    if (idx >= 0) setSelectedIndex(idx);
  }
  \<close>
  \<^verbatim>\<open>cache\<close> is the map of the handler's closure; the list \<open>arr\<close> it gives is an input.
\<close>

fun findIndex :: "('a \<Rightarrow> bool) \<Rightarrow> 'a list \<Rightarrow> nat option" where
  "findIndex P [] = None"
| "findIndex P (x # xs) =
     (if P x then Some 0 else map_option Suc (findIndex P xs))"

definition reselect :: "item list \<Rightarrow> string \<Rightarrow> nav \<Rightarrow> nav" where
  "reselect arr cameFrom s =
     (if arr \<noteq> [] then
        (case findIndex (\<lambda>v. item_path v = cameFrom) arr of
           None \<Rightarrow> s
         | Some i \<Rightarrow> s\<lparr>selectedIndex := int i\<rparr>)
      else s)"

section \<open>The effect on the current path (lines 123 to 153)\<close>

text \<open>
  \<^verbatim>\<open>
  useEffect(() => {
    if (!cache.has(currentPath)) {
      setCache((prev) => new Map(prev).set(currentPath, {
        status: 'unscanned', path: currentPath, alphaDirs: [],
        msg: 'Unscanned. Press Enter to scan.' }));
      (async () => {
        try {
          const alpha = await listDirsViaFind(currentPath);
          setCache((prev) => { ... if (entry) entry.alphaDirs = alpha.sort(...); ... });
        } catch {}
      })();
    }
    (async () => {
      try { setCurrentSizeKb(null); const kb = await runDuKb(currentPath); setCurrentSizeKb(kb); }
      catch { setCurrentSizeKb(null); }
    })();
  }, [currentPath]);
  \<close>
  The effect's part up to its awaits, and its two continuations. \<^verbatim>\<open>cache.has\<close> reads
  the map of the render; the listing arrives sorted by \<^verbatim>\<open>localeCompare\<close> of the base
  names, an order that depends on the locale, so the sorted list is an input.
\<close>

definition placeholder :: "string \<Rightarrow> DirCacheEntry" where
  "placeholder p =
     \<lparr>status = Unscanned, epath = p, alphaDirs = [], dirs = None, files = None,
      lastScan = None, msg = Some ''Unscanned. Press Enter to scan.''\<rparr>"

definition visitEffect :: "nav \<Rightarrow> nav" where
  "visitEffect s =
     (let s1 = (if cache s (currentPath s) = None
                then s\<lparr>cache := (cache s)(currentPath s \<mapsto> placeholder (currentPath s))\<rparr>
                else s)
      in s1\<lparr>currentSizeKb := None\<rparr>)"

definition alphaListed :: "string \<Rightarrow> string list \<Rightarrow> nav \<Rightarrow> nav" where
  "alphaListed p sorted_alpha s =
     (case cache s p of
        None \<Rightarrow> s
      | Some entry \<Rightarrow> s\<lparr>cache := (cache s)(p \<mapsto> entry\<lparr>alphaDirs := sorted_alpha\<rparr>)\<rparr>)"

definition sizeMeasured :: "int option \<Rightarrow> nav \<Rightarrow> nav" where
  "sizeMeasured k s = s\<lparr>currentSizeKb := k\<rparr>"

section \<open>The clamp effect (lines 285 to 290)\<close>

definition navigableLen :: "nav \<Rightarrow> nat" where
  "navigableLen s = length (getNavigableList (cache s (currentPath s)))"

text \<open>
  \<^verbatim>\<open>useEffect(() => { setSelectedIndex((idx) => ...) }, [navigableLen])\<close>: the effect
  runs after a render in which \<^verbatim>\<open>navigableLen\<close> differs from its value \<open>prevLen\<close> at
  the render before.
\<close>

definition clampEffect :: "nat \<Rightarrow> nav \<Rightarrow> nav" where
  "clampEffect prevLen s =
     (if navigableLen s \<noteq> prevLen
      then s\<lparr>selectedIndex := clampIndex (navigableLen s) (selectedIndex s)\<rparr>
      else s)"

section \<open>Events\<close>

text \<open>
  Everything happens in one thread of control, one event at a time: a key, a call of
  \<^verbatim>\<open>triggerScan\<close>, the resumption of a suspended scan, the end of a removal, a timer,
  or a render whose effect runs.
\<close>

datatype event =
    TriggerScan string bool
  | TriggerScanThrows string bool string
  | Listed nat "string list" int
  | ListedThrows nat "string list" int string
  | OnProgress nat Progress int
  | PoolDone nat "(nat \<times> int) list" int int bool
  | SizeRefreshed nat "int option"
  | ScanFailed nat "(nat \<times> int) list" string
  | KeyN
  | KeyY
  | KeyLeft int
  | KeyD
  | Reselect "item list" string
  | DeleteSucceeded string string int
  | DeleteFailed string string string
  | VisitEffect
  | AlphaListed string "string list"
  | SizeMeasured "int option"
  | ClampEffect nat

fun step :: "nav \<Rightarrow> event \<Rightarrow> nav" where
  "step s (TriggerScan p force) = triggerScan p force s"
| "step s (TriggerScanThrows p force err) = triggerScanThrows p force err s"
| "step s (Listed mySeq alpha now) = listed mySeq alpha now s"
| "step s (ListedThrows mySeq alpha now err) = listedThrows mySeq alpha now err s"
| "step s (OnProgress mySeq prog now) = onProgress mySeq prog now s"
| "step s (PoolDone mySeq sched now now' writable) = poolDone mySeq sched now now' writable s"
| "step s (SizeRefreshed mySeq k) = sizeRefreshed mySeq k s"
| "step s (ScanFailed mySeq sched err) = scanFailed mySeq sched err s"
| "step s KeyN = keyN s"
| "step s KeyY = keyY s"
| "step s (KeyLeft now) = keyLeft now s"
| "step s KeyD = keyD s"
| "step s (Reselect arr cameFrom) = reselect arr cameFrom s"
| "step s (DeleteSucceeded targetPath cur now) = deleteSucceeded targetPath cur now s"
| "step s (DeleteFailed targetPath cur err) = deleteFailed targetPath cur err s"
| "step s VisitEffect = visitEffect s"
| "step s (AlphaListed p sorted_alpha) = alphaListed p sorted_alpha s"
| "step s (SizeMeasured k) = sizeMeasured k s"
| "step s (ClampEffect prevLen) = clampEffect prevLen s"

definition run :: "nav \<Rightarrow> event list \<Rightarrow> nav" where
  "run s es = foldl step s es"

section \<open>An example session\<close>

text \<open>
  A directory \<^verbatim>\<open>/p\<close> with five children, visited and not yet scanned, and the scan
  of scenario 1: the children measure 10, 50, 5, 200 and 1 KB, and the five
  measurements resolve in the order e, d, c, a, b.
\<close>

definition demo_alpha :: "string list" where
  "demo_alpha = [''/p/a'', ''/p/b'', ''/p/c'', ''/p/d'', ''/p/e'']"

definition demo_entry :: DirCacheEntry where
  "demo_entry =
     \<lparr>status = Unscanned, epath = ''/p'', alphaDirs = demo_alpha, dirs = None, files = None,
      lastScan = None, msg = Some ''Unscanned. Press Enter to scan.''\<rparr>"

definition demo :: nav where
  "demo =
     \<lparr>currentPath = ''/p'', selectedIndex = 0, cache = [''/p'' \<mapsto> demo_entry],
      progressDirs = None, elapsedStart = 0, currentSizeKb = None, deletePrompt = None,
      viewOffset = 0, scanSeq = 0, tasks = Map.empty, cacheFile = Unreadable, removals = []\<rparr>"

definition demo_sched :: "(nat \<times> int) list" where
  "demo_sched = [(4, 1), (3, 200), (2, 5), (0, 10), (1, 50)]"

definition demo_sorted :: "SizeEntry list" where
  "demo_sorted =
     [\<lparr>kb = 200, path = ''/p/d''\<rparr>, \<lparr>kb = 50, path = ''/p/b''\<rparr>, \<lparr>kb = 10, path = ''/p/a''\<rparr>,
      \<lparr>kb = 5, path = ''/p/c''\<rparr>, \<lparr>kb = 1, path = ''/p/e''\<rparr>]"

text \<open>The first scan of \<^verbatim>\<open>/p\<close> (token 1) has its list and is measuring.\<close>

definition demo_measuring :: nav where
  "demo_measuring = run demo [TriggerScan ''/p'' False, Listed 1 demo_alpha 1000]"

text \<open>A second schedule for the same children: every measurement returns 7 KB.\<close>

definition demo_sched_old :: "(nat \<times> int) list" where
  "demo_sched_old = [(0, 7), (1, 7), (2, 7), (3, 7), (4, 7)]"

text \<open>The first scan has completed: its results are committed and its size refresh is done.\<close>

definition demo_scanned :: nav where
  "demo_scanned =
     run demo_measuring [PoolDone 1 demo_sched 2000 2001 True, SizeRefreshed 1 (Some 266)]"

definition demo_committed :: DirCacheEntry where
  "demo_committed =
     \<lparr>status = Scanned, epath = ''/p'', alphaDirs = demo_alpha, dirs = Some demo_sorted,
      files = Some [], lastScan = Some 2000, msg = None\<rparr>"

text \<open>
  The cursor is on the second row of \<^verbatim>\<open>/p\<close>, which is \<^verbatim>\<open>/p/b\<close>, and the user
  presses \<^verbatim>\<open>d\<close>: the prompt asks for confirmation.
\<close>

definition demo_confirming :: nav where
  "demo_confirming = run (demo_scanned\<lparr>selectedIndex := 1\<rparr>) [KeyD]"

text \<open>
  The user confirms with \<^verbatim>\<open>y\<close>, presses \<^verbatim>\<open>n\<close> while the removal is running and goes
  up to \<^verbatim>\<open>/\<close> with the left arrow; the timer of the left arrow finds no list for
  \<^verbatim>\<open>/\<close>, the effect puts the placeholder of \<^verbatim>\<open>/\<close> into the cache; then the removal
  ends.
\<close>

definition demo_left :: nav where
  "demo_left =
     run demo_confirming [KeyY, KeyN, KeyLeft 3000, Reselect [] ''/p'', VisitEffect]"

definition demo_removed :: nav where
  "demo_removed = run demo_left [DeleteSucceeded ''/p/b'' ''/p'' 5000]"

text \<open>
  A directory \<^verbatim>\<open>/p\<close> with seven children, one more than the pool has workers. In
  \<open>demo7_sched\<close> the child \<^verbatim>\<open>/p/a\<close> resolves first and its worker takes \<^verbatim>\<open>/p/g\<close>.
\<close>

definition demo7_alpha :: "string list" where
  "demo7_alpha = [''/p/a'', ''/p/b'', ''/p/c'', ''/p/d'', ''/p/e'', ''/p/f'', ''/p/g'']"

definition demo7 :: nav where
  "demo7 = demo\<lparr>cache := [''/p'' \<mapsto> demo_entry\<lparr>alphaDirs := demo7_alpha\<rparr>]\<rparr>"

definition demo7_sched :: "(nat \<times> int) list" where
  "demo7_sched = [(0, 10), (1, 50), (2, 5), (3, 200), (4, 1), (5, 30), (0, 20)]"

definition demo7_sorted :: "SizeEntry list" where
  "demo7_sorted =
     [\<lparr>kb = 200, path = ''/p/d''\<rparr>, \<lparr>kb = 50, path = ''/p/b''\<rparr>, \<lparr>kb = 30, path = ''/p/f''\<rparr>,
      \<lparr>kb = 20, path = ''/p/g''\<rparr>, \<lparr>kb = 10, path = ''/p/a''\<rparr>, \<lparr>kb = 5, path = ''/p/c''\<rparr>,
      \<lparr>kb = 1, path = ''/p/e''\<rparr>]"

definition demo7_committed :: DirCacheEntry where
  "demo7_committed =
     \<lparr>status = Scanned, epath = ''/p'', alphaDirs = demo7_alpha, dirs = Some demo7_sorted,
      files = Some [], lastScan = Some 2000, msg = None\<rparr>"

text \<open>
  A scan of \<^verbatim>\<open>/p\<close> (token 1) has started its six workers; a forced rescan (token 2)
  supersedes it, and the seven measurements of the rescan resolve before any of the
  first scan: the rescan commits.
\<close>

definition demo7_superseded :: nav where
  "demo7_superseded =
     run demo7 [TriggerScan ''/p'' False, Listed 1 demo7_alpha 1000, TriggerScan ''/p'' True,
                Listed 2 demo7_alpha 1500, PoolDone 2 demo7_sched 2000 2001 True]"



section \<open>Properties\<close>

subsection \<open>Viewport\<close>

lemma adjustViewport_short_list:
  "len \<le> viewSize \<Longrightarrow> adjustViewport len selected off viewSize = 0"
  by (simp add: adjustViewport_def)

text \<open>
  Claim C7, as stated: for every list length, selected index, offset and window size the
  new offset is the three-way scroll rule. The function first returns 0 whenever the
  whole list fits the window, so the rule fails there: a list of 3 rows in a window of 5
  with offset 1 and row 2 selected would keep offset 1 under the rule, and gets 0.
\<close>

theorem adjustViewport_rule_counterexample:
  "adjustViewport 3 2 1 5 = 0 \<and>
   adjustViewport 3 2 1 5 \<noteq>
     (if (2::int) < 1 then 2 else if (2::int) \<ge> 1 + 5 then 2 - 5 + 1 else 1)"
  by (simp add: adjustViewport_def)

text \<open>
  Claim C7, amended: when the list is longer than the window, the new offset is exactly
  the scroll rule (selected if it is above the window, selected - windowSize + 1 if it is
  below, else unchanged); when the list fits the window, the new offset is 0.
\<close>

theorem adjustViewport_rule:
  "(len > viewSize \<longrightarrow>
      adjustViewport len selected off viewSize =
        (if selected < off then selected
         else if selected \<ge> off + viewSize then selected - viewSize + 1
         else off))
   \<and> (len \<le> viewSize \<longrightarrow> adjustViewport len selected off viewSize = 0)"
  by (simp add: adjustViewport_def)

theorem adjustViewport_rule_witness:
  "(40::int) > 10 \<and> adjustViewport 40 25 3 10 = 16 \<and> adjustViewport 40 2 3 10 = 2
   \<and> adjustViewport 40 7 3 10 = 3 \<and> (3::int) \<le> 5 \<and> adjustViewport 3 2 1 5 = 0"
  using adjustViewport_rule [where len = 40 and viewSize = 10 and selected = 25 and off = 3]
    adjustViewport_rule [where len = 40 and viewSize = 10 and selected = 2 and off = 3]
    adjustViewport_rule [where len = 40 and viewSize = 10 and selected = 7 and off = 3]
    adjustViewport_rule [where len = 3 and viewSize = 5 and selected = 2 and off = 1]
  by simp

subsection \<open>Entry point\<close>

text \<open>
  Claim C9, as stated: started with no one-shot subcommand and without a terminal on
  stdin, startup fails with an error and a non-zero exit code rather than running any
  UI. The entry point renders the non-interactive \<open>App\<close> there.
\<close>

theorem index_main_no_tty_counterexample:
  "\<not> legacy [] \<and> index_main [] False = Render App \<and> index_main [] False \<noteq> ExitWith 1"
  by (simp add: index_main_def legacy_def)

text \<open>
  Claim C9, amended: without a terminal on stdin the entry point renders the
  non-interactive \<open>App\<close> UI, whatever the arguments; it never exits with an error, and
  it renders the interactive \<open>Navigator\<close> exactly when stdin is a terminal and the first
  argument is not a one-shot subcommand.
\<close>

theorem index_main_routing:
  "index_main argv False = Render App
   \<and> (\<forall>code. index_main argv isTTY \<noteq> ExitWith code)
   \<and> (index_main argv isTTY = Render Navigator) = (isTTY \<and> \<not> legacy argv)"
  by (simp add: index_main_def)

subsection \<open>Persistence\<close>







subsection \<open>The worker pool\<close>

text \<open>
  Whatever the schedule, a pool that completes has measured every directory exactly once,
  and every pool can complete. The index read by \<open>measured\<close> is always in range.
\<close>

lemma map_filter_update_None:
  "w < length xs \<Longrightarrow> xs ! w = Some j \<Longrightarrow>
     mset (List.map_filter (\<lambda>a. a) (xs[w := None])) = mset (List.map_filter (\<lambda>a. a) xs) - {#j#}"
proof (induction xs arbitrary: w)
  case Nil
  then show ?case by simp
next
  case (Cons a xs)
  show ?case
  proof (cases w)
    case 0
    with Cons.prems show ?thesis by (simp add: map_filter_simps)
  next
    case (Suc v)
    with Cons.prems have v: "v < length xs" "xs ! v = Some j" by simp_all
    then have mem: "j \<in># mset (List.map_filter (\<lambda>a. a) xs)"
      by (auto simp add: map_filter_def in_set_conv_nth intro!: image_eqI[where x = "Some j"])
    from Cons.IH [OF v] Suc mem show ?thesis
      by (cases a) (simp_all add: map_filter_simps)
  qed
qed

lemma map_filter_update_Some:
  "w < length xs \<Longrightarrow> xs ! w = Some j \<Longrightarrow>
     mset (List.map_filter (\<lambda>a. a) (xs[w := Some i]))
       = add_mset i (mset (List.map_filter (\<lambda>a. a) xs) - {#j#})"
proof (induction xs arbitrary: w)
  case Nil
  then show ?case by simp
next
  case (Cons a xs)
  show ?case
  proof (cases w)
    case 0
    with Cons.prems show ?thesis by (simp add: map_filter_simps)
  next
    case (Suc v)
    with Cons.prems have v: "v < length xs" "xs ! v = Some j" by simp_all
    then have mem: "j \<in># mset (List.map_filter (\<lambda>a. a) xs)"
      by (auto simp add: map_filter_def in_set_conv_nth intro!: image_eqI[where x = "Some j"])
    from Cons.IH [OF v] Suc mem show ?thesis
      by (cases a) (simp_all add: map_filter_simps)
  qed
qed

lemma in_flight_member:
  "w < length (awaiting P) \<Longrightarrow> awaiting P ! w = Some j \<Longrightarrow> j \<in># in_flight P"
  by (auto simp add: in_flight_def map_filter_def in_set_conv_nth intro!: image_eqI[where x = "Some j"])

lemma take_Suc_mset:
  "mset (take (Suc i) ds) = (if i < length ds then add_mset (ds ! i) (mset (take i ds)) else mset (take i ds))"
  by (simp add: take_Suc_conv_app_nth)

lemma pool_inv_spawn:
  assumes "pool_inv ds P"
  shows "pool_inv ds (spawn_worker (length ds) P)"
proof -
  let ?new = "if idx P \<ge> length ds then None else Some (idx P)"
  have aw: "awaiting (spawn_worker (length ds) P) = awaiting P @ [?new]"
    by (simp add: spawn_worker_def worker_loop_def Let_def)
  have ix: "idx (spawn_worker (length ds) P) = Suc (idx P)"
    by (simp add: spawn_worker_def worker_loop_def Let_def)
  have rs: "results (spawn_worker (length ds) P) = results P"
    by (simp add: spawn_worker_def worker_loop_def Let_def)
  have fl: "in_flight (spawn_worker (length ds) P)
      = (if idx P < length ds then add_mset (idx P) (in_flight P) else in_flight P)"
    by (simp add: in_flight_def aw map_filter_def)
  show ?thesis
    using assms unfolding pool_inv_def fl ix rs aw
    by (auto simp add: take_Suc_mset)
qed

lemma pool_inv_measured:
  assumes "pool_inv ds P"
  shows "pool_inv ds (measured ds c P)"
proof (cases c)
  case (Pair w k)
  show ?thesis
  proof (cases "w < length (awaiting P)")
    case False
    then show ?thesis using assms Pair by (simp add: measured_def)
  next
    case True
    show ?thesis
    proof (cases "awaiting P ! w")
      case None
      then show ?thesis using assms Pair True by (simp add: measured_def)
    next
      case (Some i0)
      let ?new = "if idx P \<ge> length ds then None else Some (idx P)"
      let ?P' = "measured ds c P"
      have aw: "awaiting ?P' = (awaiting P)[w := ?new]"
        using Pair True Some by (simp add: measured_def worker_loop_def Let_def)
      have ix: "idx ?P' = Suc (idx P)"
        using Pair True Some by (simp add: measured_def worker_loop_def Let_def)
      have rs: "results ?P' = results P @ [\<lparr>kb = k, path = ds ! i0\<rparr>]"
        using Pair True Some by (simp add: measured_def worker_loop_def Let_def)
      have mem: "i0 \<in># in_flight P" using True Some by (rule in_flight_member)
      have fl: "in_flight ?P'
          = (if idx P < length ds then add_mset (idx P) (in_flight P - {#i0#})
             else in_flight P - {#i0#})"
        using True Some
        by (simp add: in_flight_def aw map_filter_update_None map_filter_update_Some)
      have img: "add_mset (ds ! i0) (image_mset ((!) ds) (in_flight P - {#i0#}))
          = image_mset ((!) ds) (in_flight P)"
        using mem by (metis image_mset_add_mset insert_DiffM)
      have small: "\<forall>i \<in># in_flight P - {#i0#}. i < length ds"
        using assms unfolding pool_inv_def by (meson in_diffD)
      have left: "None \<in> set (awaiting ?P') \<longrightarrow> length ds \<le> Suc (idx P)"
      proof
        assume "None \<in> set (awaiting ?P')"
        then have "None = ?new \<or> None \<in> set (awaiting P)"
          unfolding aw using set_update_subset_insert [of "awaiting P" w ?new] by auto
        then show "length ds \<le> Suc (idx P)"
          using assms unfolding pool_inv_def by (auto split: if_splits)
      qed
      have sum: "image_mset ((!) ds) (in_flight ?P') + mset (map path (results ?P'))
          = mset (take (Suc (idx P)) ds)"
      proof -
        have "image_mset ((!) ds) (in_flight P - {#i0#}) + mset (map path (results ?P'))
            = image_mset ((!) ds) (in_flight P) + mset (map path (results P))"
          unfolding rs using img by simp
        also have "\<dots> = mset (take (idx P) ds)"
          using assms unfolding pool_inv_def by simp
        finally show ?thesis
          unfolding fl by (simp add: take_Suc_mset)
      qed
      show ?thesis
        unfolding pool_inv_def ix using small left sum unfolding fl by auto
    qed
  qed
qed

lemma pool_inv_start: "pool_inv ds (pool_start ds)"
proof -
  have init: "pool_inv ds \<lparr>idx = 0, awaiting = [], results = []\<rparr>"
    by (simp add: pool_inv_def in_flight_def map_filter_simps)
  have "pool_inv ds (fold (\<lambda>_. spawn_worker (length ds)) ws P)" if "pool_inv ds P" for ws :: "nat list" and P
    using that by (induction ws arbitrary: P) (simp_all add: pool_inv_spawn)
  from this [OF init] show ?thesis by (simp add: pool_start_def Let_def)
qed

lemma pool_inv_fold: "pool_inv ds P \<Longrightarrow> pool_inv ds (fold (measured ds) sched P)"
  by (induction sched arbitrary: P) (simp_all add: pool_inv_measured)

lemma measured_index_in_range:
  assumes "P = fold (measured ds) sched (pool_start ds)"
    and "w < length (awaiting P)" and "awaiting P ! w = Some i"
  shows "i < length ds"
proof -
  have "pool_inv ds P" unfolding assms(1) by (rule pool_inv_fold) (rule pool_inv_start)
  moreover have "i \<in># in_flight P" using assms(2,3) by (rule in_flight_member)
  ultimately show ?thesis by (simp add: pool_inv_def)
qed

lemma length_awaiting_spawn:
  "length (awaiting (fold (\<lambda>_. spawn_worker n) ws P)) = length (awaiting P) + length ws"
  by (induction ws arbitrary: P) (simp_all add: spawn_worker_def worker_loop_def Let_def)

lemma length_awaiting_measured: "length (awaiting (measured ds c P)) = length (awaiting P)"
  by (cases c) (simp add: measured_def worker_loop_def Let_def split: option.splits)

lemma length_awaiting_fold:
  "length (awaiting (fold (measured ds) sched P)) = length (awaiting P)"
  by (induction sched arbitrary: P) (simp_all add: length_awaiting_measured)

lemma workers_nonempty: "awaiting (fold (measured ds) sched (pool_start ds)) \<noteq> []"
proof -
  have "length (awaiting (fold (measured ds) sched (pool_start ds)))
      = min CONCURRENCY (max 1 (length ds))"
    by (simp add: length_awaiting_fold pool_start_def Let_def length_awaiting_spawn)
  then show ?thesis by (auto simp add: CONCURRENCY_def)
qed

lemma all_done_in_flight: "all_done P \<Longrightarrow> in_flight P = {#}"
proof -
  assume "all_done P"
  then have "\<forall>a \<in> set (awaiting P). a = None" by (simp add: all_done_def list_all_iff)
  then have "List.map_filter (\<lambda>a. a) (awaiting P) = []"
    by (induction "awaiting P" arbitrary: P) (auto simp add: map_filter_def)
  then show ?thesis by (simp add: in_flight_def)
qed

theorem measureDirs_permutation:
  assumes "measureDirs ds sched = Some r"
  shows "mset (map path r) = mset ds"
proof -
  define P where "P = fold (measured ds) sched (pool_start ds)"
  have fin: "all_done P" and r: "r = sort_key (\<lambda>e. - kb e) (results P)"
    using assms unfolding measureDirs_def P_def by (auto simp add: Let_def split: if_splits)
  have inv: "pool_inv ds P" unfolding P_def by (rule pool_inv_fold) (rule pool_inv_start)
  have "awaiting P \<noteq> []" unfolding P_def by (rule workers_nonempty)
  then have "None \<in> set (awaiting P)"
    using fin by (cases "awaiting P") (auto simp add: all_done_def)
  then have full: "length ds \<le> idx P" using inv by (simp add: pool_inv_def)
  have "mset (map path (results P)) = mset (take (idx P) ds)"
    using inv all_done_in_flight [OF fin] by (simp add: pool_inv_def)
  then have "mset (map path (results P)) = mset ds" using full by simp
  moreover have "mset (map path r) = mset (map path (results P))"
    unfolding r by (metis mset_map mset_sort)
  ultimately show ?thesis by simp
qed

lemma in_flight_measured:
  assumes "w < length (awaiting P)" and "awaiting P ! w = Some i0"
  shows "in_flight (measured ds (w, k) P)
          = (if idx P < length ds then add_mset (idx P) (in_flight P - {#i0#})
             else in_flight P - {#i0#})"
    and "idx (measured ds (w, k) P) = Suc (idx P)"
  using assms
  by (simp_all add: in_flight_def measured_def worker_loop_def Let_def
      map_filter_update_None map_filter_update_Some)

lemma not_done_awaits:
  assumes "\<not> all_done P"
  shows "\<exists>w i. w < length (awaiting P) \<and> awaiting P ! w = Some i"
proof -
  from assms obtain a where "a \<in> set (awaiting P)" and "a \<noteq> None"
    by (auto simp add: all_done_def list_all_iff)
  then show ?thesis by (auto simp add: in_set_conv_nth)
qed

lemma pool_can_finish: "\<exists>sched. all_done (fold (measured ds) sched P)"
proof (induction "(length ds - idx P) + size (in_flight P)" arbitrary: P rule: less_induct)
  case less
  show ?case
  proof (cases "all_done P")
    case True
    then have "all_done (fold (measured ds) [] P)" by simp
    then show ?thesis by blast
  next
    case False
    then obtain w i where w: "w < length (awaiting P)" and i: "awaiting P ! w = Some i"
      using not_done_awaits by blast
    let ?P' = "measured ds (w, 0) P"
    have mem: "i \<in># in_flight P" using w i by (rule in_flight_member)
    then have pos: "size (in_flight P) = Suc (size (in_flight P - {#i#}))"
      by (simp add: size_Suc_Diff1)
    have "(length ds - idx ?P') + size (in_flight ?P') < (length ds - idx P) + size (in_flight P)"
      unfolding in_flight_measured [OF w i] using pos by auto
    from less [OF this] obtain sched where "all_done (fold (measured ds) sched ?P')" by blast
    then have "all_done (fold (measured ds) ((w, 0) # sched) P)" by simp
    then show ?thesis by blast
  qed
qed

lemma measureDirs_can_complete: "\<exists>sched r. measureDirs ds sched = Some r"
proof -
  from pool_can_finish [of ds "pool_start ds"]
  obtain sched where "all_done (fold (measured ds) sched (pool_start ds))" by blast
  then have "measureDirs ds sched \<noteq> None" by (simp add: measureDirs_def Let_def)
  then show ?thesis by blast
qed

lemma measureDirs_sorted:
  "measureDirs ds sched = Some r \<Longrightarrow> sorted_wrt (\<lambda>a b. kb b \<le> kb a) r"
proof -
  assume "measureDirs ds sched = Some r"
  then obtain xs where r: "r = sort_key (\<lambda>e. - kb e) xs"
    by (auto simp: measureDirs_def Let_def split: if_splits)
  have "sorted (map (\<lambda>e. - kb e) r)" unfolding r by (rule sorted_sort_key)
  then show ?thesis by (simp add: sorted_map)
qed

text \<open>
  The cursor only moves forward, and the first workers take the first
  \<open>min CONCURRENCY (max 1 total)\<close> indices. So a worker that resumes finds an index
  below \<open>total\<close> only when there are more than \<open>CONCURRENCY\<close> directories: with six
  or fewer, every call of \<^verbatim>\<open>runDuKb\<close> is made when the pool starts.
\<close>

lemma idx_spawn_fold:
  "idx (fold (\<lambda>_. spawn_worker tot) xs P) = idx P + length xs"
  by (induction xs arbitrary: P) (simp_all add: spawn_worker_def worker_loop_def Let_def)

lemma idx_pool_start: "idx (pool_start ds) = min CONCURRENCY (max 1 (length ds))"
  by (simp add: pool_start_def Let_def idx_spawn_fold)

lemma idx_measured_mono: "idx P \<le> idx (measured ds c P)"
  by (cases c) (simp add: measured_def worker_loop_def Let_def split: option.splits)

lemma idx_fold_mono: "idx P \<le> idx (fold (measured ds) sched P)"
proof (induction sched arbitrary: P)
  case Nil
  show ?case by simp
next
  case (Cons c sched)
  have "idx P \<le> idx (measured ds c P)" by (rule idx_measured_mono)
  also have "\<dots> \<le> idx (fold (measured ds) sched (measured ds c P))" by (rule Cons.IH)
  finally show ?case by simp
qed

lemma spawn_throws_more_than_workers:
  assumes "spawn_throws alpha sched"
  shows "CONCURRENCY < length alpha"
proof -
  from assms obtain c before where "rev sched = c # before"
    and "idx (fold (measured alpha) (rev before) (pool_start alpha)) < length alpha"
    by (auto simp add: spawn_throws_def Let_def split: list.splits)
  moreover have "idx (pool_start alpha)
      \<le> idx (fold (measured alpha) (rev before) (pool_start alpha))"
    by (rule idx_fold_mono)
  ultimately have "min CONCURRENCY (max 1 (length alpha)) < length alpha"
    by (simp add: idx_pool_start)
  then show ?thesis by simp
qed

lemma demo7_measure: "measureDirs demo7_alpha demo7_sched = Some demo7_sorted"
  by (simp add: measureDirs_def pool_start_def spawn_worker_def worker_loop_def measured_def
      all_done_def CONCURRENCY_def upt_rec demo7_alpha_def demo7_sched_def demo7_sorted_def)

lemma demo7_spawn_throws: "spawn_throws demo7_alpha [(0, 10)]"
  by (simp add: spawn_throws_def pool_start_def spawn_worker_def worker_loop_def
      CONCURRENCY_def upt_rec demo7_alpha_def)

lemma demo_measure: "measureDirs demo_alpha demo_sched = Some demo_sorted"
  by (simp add: measureDirs_def pool_start_def spawn_worker_def worker_loop_def measured_def
      all_done_def CONCURRENCY_def upt_rec demo_alpha_def demo_sched_def demo_sorted_def)

lemma demo_measure_old:
  "measureDirs demo_alpha demo_sched_old =
     Some [\<lparr>kb = 7, path = ''/p/a''\<rparr>, \<lparr>kb = 7, path = ''/p/b''\<rparr>, \<lparr>kb = 7, path = ''/p/c''\<rparr>,
           \<lparr>kb = 7, path = ''/p/d''\<rparr>, \<lparr>kb = 7, path = ''/p/e''\<rparr>]"
  by (simp add: measureDirs_def pool_start_def spawn_worker_def worker_loop_def measured_def
      all_done_def CONCURRENCY_def upt_rec demo_alpha_def demo_sched_old_def)

subsection \<open>The sequence counter\<close>

lemmas scan_defs = run_def triggerScan_def listed_def onProgress_def poolDone_def
  sizeRefreshed_def scanFailed_def poolThrows_def catchBlock_def finallyBlock_def
  markScanning_def commitResults_def markFailed_def saveCacheToDisk_def assign_def
  as_stored_def

text \<open>Only \<open>triggerScan\<close> writes the counter, and it only counts up.\<close>

lemma finallyBlock_scanSeq [simp]: "scanSeq (finallyBlock mySeq s) = scanSeq s"
  by (simp add: finallyBlock_def Let_def)

lemma onProgress_scanSeq [simp]: "scanSeq (onProgress mySeq prog now s) = scanSeq s"
  by (simp add: onProgress_def split: option.splits)

lemma listed_scanSeq [simp]: "scanSeq (listed mySeq alpha now s) = scanSeq s"
  by (simp add: listed_def Let_def split: option.splits stage.splits)

lemma poolDone_scanSeq [simp]: "scanSeq (poolDone mySeq sched now now' w s) = scanSeq s"
  by (simp add: poolDone_def split: option.splits stage.splits)

lemma sizeRefreshed_scanSeq [simp]: "scanSeq (sizeRefreshed mySeq k s) = scanSeq s"
  by (simp add: sizeRefreshed_def split: option.splits stage.splits)

lemma catchBlock_scanSeq [simp]: "scanSeq (catchBlock mySeq err s) = scanSeq s"
  by (simp add: catchBlock_def split: option.splits)

lemma poolThrows_scanSeq [simp]: "scanSeq (poolThrows mySeq err s) = scanSeq s"
  by (simp add: poolThrows_def split: option.splits)

lemma listedThrows_scanSeq [simp]: "scanSeq (listedThrows mySeq alpha now err s) = scanSeq s"
  by (simp add: listedThrows_def split: option.splits stage.splits)

lemma scanFailed_scanSeq [simp]: "scanSeq (scanFailed mySeq sched err s) = scanSeq s"
  by (simp add: scanFailed_def split: option.splits stage.splits)

lemma triggerScan_scanSeq [simp]: "scanSeq (triggerScan p force s) = scanSeq s + 1"
  by (simp add: triggerScan_def Let_def)

lemma triggerScanThrows_scanSeq [simp]:
  "scanSeq (triggerScanThrows p force err s) = scanSeq s + 1"
  by (simp add: triggerScanThrows_def Let_def)

lemma deleteSucceeded_scanSeq:
  "scanSeq (deleteSucceeded x cur now s)
     = (if (x, cur) \<in> set (removals s) then scanSeq s + 1 else scanSeq s)"
  by (simp add: deleteSucceeded_def Let_def)

lemma deleteFailed_scanSeq [simp]: "scanSeq (deleteFailed x cur err s) = scanSeq s"
  by (simp add: deleteFailed_def)

lemma confirmDelete_scanSeq [simp]: "scanSeq (confirmDelete x s) = scanSeq s"
  by (simp add: confirmDelete_def)

lemma keyN_scanSeq [simp]: "scanSeq (keyN s) = scanSeq s"
  by (simp add: keyN_def split: option.splits)

lemma keyY_scanSeq [simp]: "scanSeq (keyY s) = scanSeq s"
  by (simp add: keyY_def split: option.splits)

lemma keyD_scanSeq [simp]: "scanSeq (keyD s) = scanSeq s"
  by (simp add: keyD_def Let_def split: option.splits)

lemma keyLeft_scanSeq: "scanSeq s \<le> scanSeq (keyLeft now s)"
  by (simp add: keyLeft_def Let_def split: option.splits)

lemma reselect_scanSeq [simp]: "scanSeq (reselect arr cameFrom s) = scanSeq s"
  by (simp add: reselect_def split: option.splits)

lemma visitEffect_scanSeq [simp]: "scanSeq (visitEffect s) = scanSeq s"
  by (simp add: visitEffect_def Let_def)

lemma alphaListed_scanSeq [simp]: "scanSeq (alphaListed p a s) = scanSeq s"
  by (simp add: alphaListed_def split: option.splits)

lemma sizeMeasured_scanSeq [simp]: "scanSeq (sizeMeasured k s) = scanSeq s"
  by (simp add: sizeMeasured_def)

lemma clampEffect_scanSeq [simp]: "scanSeq (clampEffect n s) = scanSeq s"
  by (simp add: clampEffect_def)

lemma scanSeq_step_mono: "scanSeq s \<le> scanSeq (step s e)"
  by (cases e) (simp_all add: deleteSucceeded_scanSeq keyLeft_scanSeq)

lemma scanSeq_run_mono: "scanSeq s \<le> scanSeq (run s es)"
  unfolding run_def
proof (induction es arbitrary: s)
  case Nil
  show ?case by simp
next
  case (Cons e es)
  have "scanSeq s \<le> scanSeq (step s e)" by (rule scanSeq_step_mono)
  also have "\<dots> \<le> scanSeq (foldl step (step s e) es)" by (rule Cons.IH)
  finally show ?case by simp
qed

lemma superseded_after_trigger:
  assumes "tok \<le> scanSeq s"
  shows "scanSeq (run (triggerScan p force s) es) \<noteq> tok"
proof -
  have "scanSeq s + 1 \<le> scanSeq (run (triggerScan p force s) es)"
    using scanSeq_run_mono [of "triggerScan p force s" es] by simp
  with assms show ?thesis by simp
qed

text \<open>
  A continuation whose token is not the counter's value leaves the state as it is, up
  to the table of suspended invocations (its own invocation ends).
\<close>

lemma listed_stale:
  "scanSeq s \<noteq> mySeq \<Longrightarrow> \<exists>T. listed mySeq alpha now s = s\<lparr>tasks := T\<rparr>"
  by (auto simp add: listed_def finallyBlock_def Let_def split: option.splits stage.splits
      intro: exI[of _ "tasks s"])

lemma onProgress_stale: "scanSeq s \<noteq> mySeq \<Longrightarrow> onProgress mySeq prog now s = s"
  by (simp add: onProgress_def split: option.splits)

lemma poolDone_stale:
  "scanSeq s \<noteq> mySeq \<Longrightarrow> \<exists>T. poolDone mySeq sched now now' w s = s\<lparr>tasks := T\<rparr>"
  by (auto simp add: poolDone_def finallyBlock_def Let_def split: option.splits stage.splits
      intro: exI[of _ "tasks s"])

lemma sizeRefreshed_stale:
  "scanSeq s \<noteq> mySeq \<Longrightarrow> \<exists>T. sizeRefreshed mySeq k s = s\<lparr>tasks := T\<rparr>"
  by (auto simp add: sizeRefreshed_def finallyBlock_def Let_def
      split: option.splits stage.splits intro: exI[of _ "tasks s"])

lemma listed_stale_fields:
  assumes "scanSeq s \<noteq> mySeq"
  shows "cache (listed mySeq alpha now s) = cache s"
    and "progressDirs (listed mySeq alpha now s) = progressDirs s"
    and "currentSizeKb (listed mySeq alpha now s) = currentSizeKb s"
    and "cacheFile (listed mySeq alpha now s) = cacheFile s"
  using listed_stale [OF assms, of alpha now] by auto

lemma poolDone_stale_fields:
  assumes "scanSeq s \<noteq> mySeq"
  shows "cache (poolDone mySeq sched now now' w s) = cache s"
    and "progressDirs (poolDone mySeq sched now now' w s) = progressDirs s"
    and "currentSizeKb (poolDone mySeq sched now now' w s) = currentSizeKb s"
    and "cacheFile (poolDone mySeq sched now now' w s) = cacheFile s"
  using poolDone_stale [OF assms, of sched now now' w] by auto

lemma sizeRefreshed_stale_fields:
  assumes "scanSeq s \<noteq> mySeq"
  shows "cache (sizeRefreshed mySeq k s) = cache s"
    and "progressDirs (sizeRefreshed mySeq k s) = progressDirs s"
    and "currentSizeKb (sizeRefreshed mySeq k s) = currentSizeKb s"
    and "cacheFile (sizeRefreshed mySeq k s) = cacheFile s"
  using sizeRefreshed_stale [OF assms, of k] by auto

text \<open>A scan whose token is the counter's value goes through.\<close>

lemma listed_cache [simp]: "cache (listed mySeq alpha now s) = cache s"
  by (simp add: listed_def finallyBlock_def onProgress_def Let_def
      split: option.splits stage.splits)

lemma listed_fresh_task:
  assumes "tasks s mySeq = Some t" and "tstage t = Listing" and "scanSeq s = mySeq"
  shows "\<exists>t'. tasks (listed mySeq alpha now s) mySeq = Some t'
           \<and> tstage t' = Measuring alpha \<and> tpath t' = tpath t"
  using assms
  by (simp add: listed_def onProgress_def Let_def)

lemma poolDone_other_task:
  assumes "T \<noteq> mySeq"
  shows "tasks (poolDone mySeq sched now now' w s) T = tasks s T"
  using assms
  by (simp add: poolDone_def finallyBlock_def Let_def split: option.splits stage.splits)

lemma poolDone_fresh_cache:
  assumes "tasks s mySeq = Some t" and "tstage t = Measuring alpha" and "scanSeq s = mySeq"
    and "measureDirs alpha sched = Some dirSizes"
  shows "cache (poolDone mySeq sched now now' w s) = commitResults (tpath t) dirSizes now (cache s)"
  using assms by (simp add: poolDone_def)

lemma fresh_scan_commits:
  assumes "tasks s T = Some t" and "tstage t = Listing" and "scanSeq s = T"
    and "measureDirs alpha sched = Some dirSizes"
  shows "cache (poolDone T sched now now' w (listed T alpha n0 s))
           = commitResults (tpath t) dirSizes now (cache s)"
proof -
  obtain t' where t': "tasks (listed T alpha n0 s) T = Some t'"
    and st: "tstage t' = Measuring alpha" and pt: "tpath t' = tpath t"
    using listed_fresh_task [OF assms(1,2,3), of alpha n0] by auto
  have "scanSeq (listed T alpha n0 s) = T" using assms(3) by simp
  from poolDone_fresh_cache [OF t' st this assms(4), of now now' w] pt
  show ?thesis by simp
qed

subsection \<open>The example session\<close>

lemma demo_measuring_task:
  "tasks demo_measuring 1 =
     Some \<lparr>tpath = ''/p'', tforce = False, tstage = Measuring demo_alpha, lastDirsTs = 1000\<rparr>"
  by (simp add: demo_measuring_def demo_def scan_defs)

lemma demo_measuring_seq: "scanSeq demo_measuring = 1"
  by (simp add: demo_measuring_def demo_def scan_defs)

lemma demo_measuring_cache:
  "cache demo_measuring ''/p'' = Some (demo_entry\<lparr>status := Scanning, msg := Some scanning_msg\<rparr>)"
  by (simp add: demo_measuring_def demo_def scan_defs demo_entry_def)

lemma demo_scanned_cache: "cache demo_scanned ''/p'' = Some demo_committed"
  by (simp add: demo_scanned_def demo_measuring_def demo_def scan_defs demo_measure
      demo_entry_def demo_committed_def TOP_N_def demo_sorted_def)

lemma demo_scanned_seq: "scanSeq demo_scanned = 1"
  by (simp add: demo_scanned_def demo_measuring_seq run_def)

subsection \<open>Committed results\<close>

text \<open>
  Claim C3: for every completed scan, whatever the order in which the pool's
  measurements resolved and whatever sizes they returned, the committed list of sized
  children is sorted by descending size and has at most N = 30 elements.
\<close>

theorem committed_dirs_sorted_topN:
  assumes "tasks s mySeq = Some t" and "tstage t = Measuring alpha" and "scanSeq s = mySeq"
    and "cache s (tpath t) = Some ent" and "measureDirs alpha sched = Some dirSizes"
  shows "cache (poolDone mySeq sched now now' writable s) (tpath t) =
           Some (ent\<lparr>status := Scanned, msg := None, dirs := Some (take TOP_N dirSizes),
                     files := Some [], lastScan := Some now\<rparr>)
         \<and> sorted_wrt (\<lambda>a b. kb b \<le> kb a) (take TOP_N dirSizes)
         \<and> length (take TOP_N dirSizes) \<le> 30"
proof -
  have "sorted_wrt (\<lambda>a b. kb b \<le> kb a) dirSizes"
    using assms(5) by (rule measureDirs_sorted)
  then have "sorted_wrt (\<lambda>a b. kb b \<le> kb a) (take TOP_N dirSizes)"
    by (rule sorted_wrt_take)
  moreover have "length (take TOP_N dirSizes) \<le> 30"
    by (simp add: TOP_N_def)
  moreover have "cache (poolDone mySeq sched now now' writable s) (tpath t) =
           Some (ent\<lparr>status := Scanned, msg := None, dirs := Some (take TOP_N dirSizes),
                     files := Some [], lastScan := Some now\<rparr>)"
    using assms by (simp add: poolDone_def commitResults_def)
  ultimately show ?thesis by simp
qed

theorem committed_dirs_sorted_topN_witness:
  "cache (poolDone 1 demo_sched 2000 2001 True demo_measuring) ''/p'' =
     Some \<lparr>status = Scanned, epath = ''/p'', alphaDirs = demo_alpha, dirs = Some demo_sorted,
           files = Some [], lastScan = Some 2000, msg = None\<rparr>
   \<and> map kb demo_sorted = [200, 50, 10, 5, 1]"
  using committed_dirs_sorted_topN [OF demo_measuring_task _ demo_measuring_seq _ demo_measure,
      of "demo_entry\<lparr>status := Scanning, msg := Some scanning_msg\<rparr>" 2000 2001 True]
    demo_measuring_cache
  by (simp add: demo_entry_def demo_sorted_def TOP_N_def)

subsection \<open>Superseded scans\<close>

text \<open>
  Claim C10: the counter is one counter for all paths, and every call of
  \<open>triggerScan\<close> increments it, whatever the entry's status and whatever \<open>force\<close> is.
  So once \<open>triggerScan\<close> has been called again, for any path, the continuations of
  every scan started before (its token is at most the counter's earlier value) change
  neither the cache nor the progress state, whatever happens in between.
\<close>

theorem any_trigger_supersedes_earlier_scans:
  assumes "tok \<le> scanSeq s" and "s' = run (triggerScan p force s) es"
  shows "scanSeq (triggerScan p force s) = scanSeq s + 1
       \<and> cache (listed tok alpha now s') = cache s'
       \<and> progressDirs (listed tok alpha now s') = progressDirs s'
       \<and> onProgress tok prog now s' = s'
       \<and> cache (poolDone tok sched now now' w s') = cache s'
       \<and> progressDirs (poolDone tok sched now now' w s') = progressDirs s'
       \<and> cacheFile (poolDone tok sched now now' w s') = cacheFile s'
       \<and> cache (sizeRefreshed tok k s') = cache s'
       \<and> progressDirs (sizeRefreshed tok k s') = progressDirs s'
       \<and> currentSizeKb (sizeRefreshed tok k s') = currentSizeKb s'"
proof -
  have stale: "scanSeq s' \<noteq> tok"
    unfolding assms(2) using assms(1) by (rule superseded_after_trigger)
  show ?thesis
    using stale
    by (simp add: listed_stale_fields poolDone_stale_fields sizeRefreshed_stale_fields
        onProgress_stale)
qed

theorem any_trigger_supersedes_earlier_scans_witness:
  "(1::nat) \<le> scanSeq demo_measuring
   \<and> scanSeq (triggerScan ''/q'' False demo_measuring) = 2
   \<and> cache (run demo_measuring [TriggerScan ''/q'' False, PoolDone 1 demo_sched 1900 2001 True])
       = cache (run demo_measuring [TriggerScan ''/q'' False])
   \<and> progressDirs (run demo_measuring [TriggerScan ''/q'' False,
        OnProgress 1 \<lparr>phase = ''measuring'', processed = 5, total = 5\<rparr> 1900])
       = progressDirs (run demo_measuring [TriggerScan ''/q'' False])
   \<and> cache (poolDone 1 demo_sched 2000 2001 True demo_measuring) ''/p'' = Some demo_committed"
proof -
  have le: "(1::nat) \<le> scanSeq demo_measuring" by (simp add: demo_measuring_seq)
  note T = any_trigger_supersedes_earlier_scans [OF le refl,
      where p = "''/q''" and force = False and es = "[]" and now = 1900
        and prog = "\<lparr>phase = ''measuring'', processed = 5, total = 5\<rparr>"
        and sched = demo_sched and now' = 2001 and w = True]
  have committed: "cache (poolDone 1 demo_sched 2000 2001 True demo_measuring) ''/p''
      = Some demo_committed"
    by (simp add: demo_measuring_def demo_def scan_defs demo_measure
      demo_entry_def demo_committed_def TOP_N_def demo_sorted_def)
  show ?thesis
    using T le committed by (simp add: run_def demo_measuring_seq)
qed

text \<open>
  Claim C1: a scan of P started with token T1 and then superseded by a forced rescan of
  P with token T2. Whatever happens afterwards, the completion of the T1 scan writes
  nothing to the cache nor to the store; and in both orders of completion the entry of
  P ends with the results of the T2 scan.
\<close>

theorem superseded_scan_never_commits:
  assumes "s1 = triggerScan P force s0" and "T1 = scanSeq s1"
    and "s2 = triggerScan P True (run s1 es1)" and "T2 = scanSeq s2"
  shows "cache (poolDone T1 sched1 n1 n1' w1 (run s2 es2)) = cache (run s2 es2)
       \<and> cacheFile (poolDone T1 sched1 n1 n1' w1 (run s2 es2)) = cacheFile (run s2 es2)
       \<and> (\<forall>ent dirSizes.
            cache s2 P = Some ent \<and> measureDirs alpha2 sched2 = Some dirSizes \<longrightarrow>
              cache (run s2 [Listed T2 alpha2 n0, PoolDone T1 sched1 n1 n1' w1,
                             PoolDone T2 sched2 n2 n2' w2]) P
                = Some (ent\<lparr>status := Scanned, msg := None,
                             dirs := Some (take TOP_N dirSizes), files := Some [],
                             lastScan := Some n2\<rparr>)
            \<and> cache (run s2 [Listed T2 alpha2 n0, PoolDone T2 sched2 n2 n2' w2,
                             PoolDone T1 sched1 n1 n1' w1]) P
                = Some (ent\<lparr>status := Scanned, msg := None,
                             dirs := Some (take TOP_N dirSizes), files := Some [],
                             lastScan := Some n2\<rparr>))"
proof -
  have T1_le: "T1 \<le> scanSeq (run s1 es1)"
    unfolding assms(2) by (rule scanSeq_run_mono)
  have T2_eq: "T2 = scanSeq (run s1 es1) + 1"
    unfolding assms(4) assms(3) by simp
  have neq: "T1 \<noteq> T2" using T1_le T2_eq by simp
  have stale: "scanSeq (run s2 es2) \<noteq> T1"
    unfolding assms(3) using T1_le by (rule superseded_after_trigger)
  have first: "cache (poolDone T1 sched1 n1 n1' w1 (run s2 es2)) = cache (run s2 es2)
       \<and> cacheFile (poolDone T1 sched1 n1 n1' w1 (run s2 es2)) = cacheFile (run s2 es2)"
    using stale by (simp add: poolDone_stale_fields)
  have task2: "tasks s2 T2 = Some \<lparr>tpath = P, tforce = True, tstage = Listing, lastDirsTs = 0\<rparr>"
    unfolding assms(4) unfolding assms(3) by (simp add: triggerScan_def Let_def)
  have seq2: "scanSeq s2 = T2" by (simp add: assms(4))
  define sl where "sl = listed T2 alpha2 n0 s2"
  obtain tl where task_l: "tasks sl T2 = Some tl"
    and stage_l: "tstage tl = Measuring alpha2" and path_l: "tpath tl = P"
    using listed_fresh_task [OF task2 _ seq2, of alpha2 n0] unfolding sl_def by auto
  have seq_l: "scanSeq sl = T2" unfolding sl_def using seq2 by simp
  have cache_l: "cache sl = cache s2" unfolding sl_def by simp
  have second: "cache (run s2 [Listed T2 alpha2 n0, PoolDone T1 sched1 n1 n1' w1,
                             PoolDone T2 sched2 n2 n2' w2]) P
                = Some (ent\<lparr>status := Scanned, msg := None,
                             dirs := Some (take TOP_N dirSizes), files := Some [],
                             lastScan := Some n2\<rparr>)
            \<and> cache (run s2 [Listed T2 alpha2 n0, PoolDone T2 sched2 n2 n2' w2,
                             PoolDone T1 sched1 n1 n1' w1]) P
                = Some (ent\<lparr>status := Scanned, msg := None,
                             dirs := Some (take TOP_N dirSizes), files := Some [],
                             lastScan := Some n2\<rparr>)"
    if ent: "cache s2 P = Some ent" and md: "measureDirs alpha2 sched2 = Some dirSizes"
    for ent dirSizes
  proof -
    define sa where "sa = poolDone T1 sched1 n1 n1' w1 sl"
    have stale_l: "scanSeq sl \<noteq> T1" using seq_l neq by simp
    have task_a: "tasks sa T2 = Some tl"
      unfolding sa_def using task_l neq by (simp add: poolDone_other_task)
    have seq_a: "scanSeq sa = T2" unfolding sa_def using seq_l by simp
    have cache_a: "cache sa = cache s2"
      unfolding sa_def using stale_l cache_l by (simp add: poolDone_stale_fields)
    have A: "cache (poolDone T2 sched2 n2 n2' w2 sa) = commitResults P dirSizes n2 (cache s2)"
      using poolDone_fresh_cache [OF task_a stage_l seq_a md, of n2 n2' w2] cache_a path_l
      by simp
    define sb where "sb = poolDone T2 sched2 n2 n2' w2 sl"
    have cache_b: "cache sb = commitResults P dirSizes n2 (cache s2)"
      unfolding sb_def
      using poolDone_fresh_cache [OF task_l stage_l seq_l md, of n2 n2' w2] cache_l path_l
      by simp
    have seq_b: "scanSeq sb \<noteq> T1" unfolding sb_def using stale_l by simp
    have B: "cache (poolDone T1 sched1 n1 n1' w1 sb) = commitResults P dirSizes n2 (cache s2)"
      using seq_b cache_b by (simp add: poolDone_stale_fields)
    show ?thesis
      using A B ent by (simp add: run_def sa_def sb_def sl_def commitResults_def)
  qed
  show ?thesis using first second by blast
qed

theorem superseded_scan_never_commits_witness:
  "cache (run demo [TriggerScan ''/p'' False, Listed 1 demo_alpha 1000, TriggerScan ''/p'' True,
                    Listed 2 demo_alpha 1500, PoolDone 1 demo_sched_old 1800 1801 True,
                    PoolDone 2 demo_sched 2000 2001 True]) ''/p'' = Some demo_committed
   \<and> cache (run demo [TriggerScan ''/p'' False, Listed 1 demo_alpha 1000, TriggerScan ''/p'' True,
                    Listed 2 demo_alpha 1500, PoolDone 2 demo_sched 2000 2001 True,
                    PoolDone 1 demo_sched_old 1800 1801 True]) ''/p'' = Some demo_committed
   \<and> cache (poolDone 1 demo_sched_old 1800 1801 True
        (run demo [TriggerScan ''/p'' False, Listed 1 demo_alpha 1000, TriggerScan ''/p'' True]))
       = cache (run demo [TriggerScan ''/p'' False, Listed 1 demo_alpha 1000, TriggerScan ''/p'' True])"
proof -
  note T = superseded_scan_never_commits [OF refl refl refl refl,
      where P = "''/p''" and force = False and ?s0.0 = demo and ?es1.0 = "[Listed 1 demo_alpha 1000]"
        and ?es2.0 = "[]" and ?sched1.0 = demo_sched_old and ?n1.0 = 1800 and ?n1' = 1801
        and ?w1.0 = True and ?alpha2.0 = demo_alpha and ?sched2.0 = demo_sched and ?n0.0 = 1500
        and ?n2.0 = 2000 and ?n2' = 2001 and ?w2.0 = True]
  have s2: "triggerScan ''/p'' True (run (triggerScan ''/p'' False demo) [Listed 1 demo_alpha 1000])
      = triggerScan ''/p'' True demo_measuring"
    by (simp add: demo_measuring_def run_def)
  have ent: "cache (triggerScan ''/p'' True demo_measuring) ''/p''
      = Some (demo_entry\<lparr>status := Scanning, msg := Some scanning_msg\<rparr>)"
    using demo_measuring_cache by (simp add: triggerScan_def markScanning_def)
  have T1: "scanSeq (triggerScan ''/p'' False demo) = 1" by (simp add: demo_def)
  have T2: "scanSeq (triggerScan ''/p'' True demo_measuring) = 2"
    by (simp add: demo_measuring_seq)
  have committed: "demo_entry\<lparr>status := Scanned, msg := None, dirs := Some (take TOP_N demo_sorted),
      files := Some [], lastScan := Some 2000\<rparr> = demo_committed"
    by (simp add: demo_entry_def demo_committed_def TOP_N_def demo_sorted_def)
  have both: "cache (run (triggerScan ''/p'' True demo_measuring)
        [Listed 2 demo_alpha 1500, PoolDone 1 demo_sched_old 1800 1801 True,
         PoolDone 2 demo_sched 2000 2001 True]) ''/p'' = Some demo_committed
    \<and> cache (run (triggerScan ''/p'' True demo_measuring)
        [Listed 2 demo_alpha 1500, PoolDone 2 demo_sched 2000 2001 True,
         PoolDone 1 demo_sched_old 1800 1801 True]) ''/p'' = Some demo_committed"
    using T [THEN conjunct2, THEN conjunct2, rule_format,
        of "demo_entry\<lparr>status := Scanning, msg := Some scanning_msg\<rparr>" demo_sorted]
      ent demo_measure
    unfolding s2 T1 T2 by (simp add: committed)
  have frame: "cache (poolDone 1 demo_sched_old 1800 1801 True (triggerScan ''/p'' True demo_measuring))
      = cache (triggerScan ''/p'' True demo_measuring)"
    using T [THEN conjunct1] unfolding s2 T1 by (simp add: run_def)
  show ?thesis
    using both frame by (simp add: run_def demo_measuring_def)
qed

text \<open>
  The \<^verbatim>\<open>catch\<close> block compares no token: when a worker's call of \<^verbatim>\<open>runDuKb\<close>
  throws, the entry of the scan's path is put back to Unscanned with the error's
  message, whatever the counter's value.
\<close>

lemma scanFailed_compares_no_token:
  assumes "tasks s T = Some t" and "tstage t = Measuring alpha"
    and "spawn_throws alpha sched" and "cache s (tpath t) = Some ent"
  shows "cache (scanFailed T sched err s) (tpath t)
           = Some (ent\<lparr>status := Unscanned, msg := Some (''Scan failed: '' @ err)\<rparr>)"
  using assms
  by (simp add: scanFailed_def poolThrows_def catchBlock_def finallyBlock_def markFailed_def
      Let_def)

text \<open>
  Claim C2 says that every continuation of a scan, the failure handler included, first
  compares its token with the counter and changes no shared state when they differ. The
  listing, progress, completion and size-refresh continuations do (the lemmas
  \<open>listed_stale\<close>, \<open>onProgress_stale\<close>, \<open>poolDone_stale\<close>, \<open>sizeRefreshed_stale\<close>),
  and so does the \<^verbatim>\<open>finally\<close> block. The \<^verbatim>\<open>catch\<close> block does not. In the example
  \<^verbatim>\<open>/p\<close> has seven children. The scan with token 1 has its six workers measuring when
  a forced rescan with token 2 supersedes it; the rescan completes and commits. Then
  the first measurement of scan 1 resolves, its worker takes the seventh child, and
  that call of \<^verbatim>\<open>runDuKb\<close> throws: the handler of scan 1 puts the entry back to
  Unscanned with an error message, although the counter is 2.
\<close>

theorem stale_failure_reverts_committed_entry:
  "length demo7_alpha = 7
   \<and> spawn_throws demo7_alpha [(0, 10)]
   \<and> scanSeq demo7_superseded = 2
   \<and> tasks demo7_superseded 1
       = Some \<lparr>tpath = ''/p'', tforce = False, tstage = Measuring demo7_alpha, lastDirsTs = 1000\<rparr>
   \<and> cache demo7_superseded ''/p'' = Some demo7_committed
   \<and> cache (run demo7_superseded [ScanFailed 1 [(0, 10)] ''spawn ENOMEM'']) ''/p''
       = Some (demo7_committed\<lparr>status := Unscanned, msg := Some ''Scan failed: spawn ENOMEM''\<rparr>)"
proof -
  have len: "length demo7_alpha = 7" by (simp add: demo7_alpha_def)
  have seq: "scanSeq demo7_superseded = 2"
    by (simp add: demo7_superseded_def demo7_def demo_def run_def)
  have task: "tasks demo7_superseded 1
       = Some \<lparr>tpath = ''/p'', tforce = False, tstage = Measuring demo7_alpha, lastDirsTs = 1000\<rparr>"
    by (simp add: demo7_superseded_def demo7_def demo_def scan_defs demo7_measure)
  have committed: "cache demo7_superseded ''/p'' = Some demo7_committed"
    by (simp add: demo7_superseded_def demo7_def demo_def scan_defs demo7_measure
        demo_entry_def demo7_committed_def TOP_N_def demo7_sorted_def)
  have "cache (scanFailed 1 [(0, 10)] ''spawn ENOMEM'' demo7_superseded) ''/p''
       = Some (demo7_committed\<lparr>status := Unscanned, msg := Some ''Scan failed: spawn ENOMEM''\<rparr>)"
    using task committed demo7_spawn_throws
    by (simp add: scanFailed_def poolThrows_def catchBlock_def finallyBlock_def markFailed_def)
  then show ?thesis
    using len seq task committed demo7_spawn_throws by (simp add: run_def)
qed

subsection \<open>Calls of \<open>triggerScan\<close> on a scanning or scanned entry\<close>

text \<open>
  Claim C4, as stated: a call of \<open>triggerScan\<close> on an entry that is Scanning (forced or
  not), or an unforced one on an entry that is Scanned, is a no-op: the entry stays as it
  is and no results are committed later for that call. A forced call on the Scanning
  entry of the example commits its results when its pool completes.
\<close>

theorem triggerScan_on_scanning_counterexample:
  "cache demo_measuring ''/p'' = Some (demo_entry\<lparr>status := Scanning, msg := Some scanning_msg\<rparr>)
   \<and> cache (run demo_measuring
        [TriggerScan ''/p'' True, Listed 2 demo_alpha 1500, PoolDone 2 demo_sched 2000 2001 True])
        ''/p'' = Some demo_committed
   \<and> demo_committed \<noteq> demo_entry\<lparr>status := Scanning, msg := Some scanning_msg\<rparr>"
  by (simp add: demo_measuring_def demo_def scan_defs demo_measure
      demo_entry_def demo_committed_def TOP_N_def demo_sorted_def)

text \<open>An unforced call on a Scanned entry goes on to measure and to commit as well.\<close>

lemma unforced_trigger_on_scanned_rescans:
  "cache demo_scanned ''/p'' = Some demo_committed
   \<and> cache (run demo_scanned
        [TriggerScan ''/p'' False, Listed 2 demo_alpha 3000, PoolDone 2 demo_sched_old 4000 4001 True])
        ''/p''
      = Some (demo_committed
          \<lparr>dirs := Some [\<lparr>kb = 7, path = ''/p/a''\<rparr>, \<lparr>kb = 7, path = ''/p/b''\<rparr>,
                         \<lparr>kb = 7, path = ''/p/c''\<rparr>, \<lparr>kb = 7, path = ''/p/d''\<rparr>,
                         \<lparr>kb = 7, path = ''/p/e''\<rparr>],
           lastScan := Some 4000\<rparr>)"
  by (simp add: demo_scanned_def demo_measuring_def demo_def scan_defs demo_measure demo_measure_old
      demo_entry_def demo_committed_def TOP_N_def demo_sorted_def)

text \<open>
  Claim C4, amended: a call of \<open>triggerScan\<close> on an entry that is Scanning, or an
  unforced call on an entry that is Scanned, leaves the whole cache unchanged at the
  call (the entry is not marked again). A forced call on a Scanning entry still takes a
  fresh token, and when its listing and its pool complete while that token is the
  latest, its results are committed to the entry.
\<close>

theorem triggerScan_guarded_call:
  assumes "cache s p = Some ent"
    and "status ent = Scanning \<or> (\<not> force \<and> status ent = Scanned)"
  shows "cache (triggerScan p force s) = cache s
       \<and> (force \<and> status ent = Scanning \<longrightarrow>
            scanSeq (triggerScan p force s) = scanSeq s + 1
          \<and> (\<forall>alpha sched dirSizes.
                measureDirs alpha sched = Some dirSizes \<longrightarrow>
                  cache (run (triggerScan p force s)
                          [Listed (scanSeq s + 1) alpha n0,
                           PoolDone (scanSeq s + 1) sched now now' w]) p
                    = Some (ent\<lparr>status := Scanned, msg := None,
                                 dirs := Some (take TOP_N dirSizes), files := Some [],
                                 lastScan := Some now\<rparr>)))"
proof -
  have unchanged: "cache (triggerScan p force s) = cache s"
    using assms by (auto simp add: triggerScan_def markScanning_def Let_def)
  have task: "tasks (triggerScan p force s) (scanSeq s + 1)
      = Some \<lparr>tpath = p, tforce = force, tstage = Listing, lastDirsTs = 0\<rparr>"
    by (simp add: triggerScan_def Let_def)
  have commit: "cache (run (triggerScan p force s)
                          [Listed (scanSeq s + 1) alpha n0,
                           PoolDone (scanSeq s + 1) sched now now' w]) p
                    = Some (ent\<lparr>status := Scanned, msg := None,
                                 dirs := Some (take TOP_N dirSizes), files := Some [],
                                 lastScan := Some now\<rparr>)"
    if md: "measureDirs alpha sched = Some dirSizes" for alpha sched dirSizes
    using fresh_scan_commits [OF task _ _ md, of now now' w n0] unchanged assms(1)
    by (simp add: run_def commitResults_def)
  from commit have commit': "\<forall>alpha sched dirSizes.
                measureDirs alpha sched = Some dirSizes \<longrightarrow>
                  cache (run (triggerScan p force s)
                          [Listed (scanSeq s + 1) alpha n0,
                           PoolDone (scanSeq s + 1) sched now now' w]) p
                    = Some (ent\<lparr>status := Scanned, msg := None,
                                 dirs := Some (take TOP_N dirSizes), files := Some [],
                                 lastScan := Some now\<rparr>)"
    by blast
  have seq: "scanSeq (triggerScan p force s) = scanSeq s + 1" by simp
  show ?thesis by (intro conjI impI unchanged seq commit')
qed

theorem triggerScan_guarded_call_witness:
  "cache (triggerScan ''/p'' True demo_measuring) = cache demo_measuring
   \<and> scanSeq (triggerScan ''/p'' True demo_measuring) = 2
   \<and> cache (run (triggerScan ''/p'' True demo_measuring)
        [Listed 2 demo_alpha 1500, PoolDone 2 demo_sched 2000 2001 True]) ''/p''
      = Some demo_committed
   \<and> cache (triggerScan ''/p'' False demo_scanned) = cache demo_scanned"
proof -
  have committed: "demo_entry\<lparr>status := Scanned, msg := None,
      dirs := Some (take TOP_N demo_sorted), files := Some [], lastScan := Some 2000\<rparr>
      = demo_committed"
    by (simp add: demo_entry_def demo_committed_def TOP_N_def demo_sorted_def)
  note T = triggerScan_guarded_call [OF demo_measuring_cache, where force = True
        and ?n0.0 = 1500 and now = 2000 and now' = 2001 and w = True]
  have guard: "status (demo_entry\<lparr>status := Scanning, msg := Some scanning_msg\<rparr>) = Scanning
      \<or> (\<not> True \<and> status (demo_entry\<lparr>status := Scanning, msg := Some scanning_msg\<rparr>) = Scanned)"
    by simp
  have forced: "True \<and> status (demo_entry\<lparr>status := Scanning, msg := Some scanning_msg\<rparr>) = Scanning"
    by simp
  have two: "scanSeq demo_measuring + 1 = 2" by (simp add: demo_measuring_seq)
  have A1: "cache (triggerScan ''/p'' True demo_measuring) = cache demo_measuring"
    using T [OF guard] by simp
  have A2: "scanSeq (triggerScan ''/p'' True demo_measuring) = 2"
    using T [OF guard, THEN conjunct2, rule_format, OF forced, THEN conjunct1] two by simp
  have A3: "cache (run (triggerScan ''/p'' True demo_measuring)
        [Listed 2 demo_alpha 1500, PoolDone 2 demo_sched 2000 2001 True]) ''/p''
      = Some demo_committed"
    using T [OF guard, THEN conjunct2, rule_format, OF forced, THEN conjunct2, rule_format,
        OF demo_measure]
    unfolding two by (simp add: committed)
  note A = A1 A2 A3
  have B: "cache (triggerScan ''/p'' False demo_scanned) = cache demo_scanned"
    using triggerScan_guarded_call [OF demo_scanned_cache, where force = False]
    by (simp add: demo_committed_def)
  show ?thesis using A B by simp
qed

subsection \<open>The selection clamp\<close>

text \<open>
  Claim C6: whenever the navigable list's length changes to a non-zero length L, the
  effect clamps the selected index into [0, L - 1]; when the list becomes empty the
  selected index becomes 0.
\<close>

theorem clampEffect_in_range:
  assumes "navigableLen s \<noteq> prevLen"
  shows "(navigableLen s = 0 \<longrightarrow> selectedIndex (clampEffect prevLen s) = 0)
       \<and> (0 < navigableLen s \<longrightarrow>
            0 \<le> selectedIndex (clampEffect prevLen s)
          \<and> selectedIndex (clampEffect prevLen s) \<le> int (navigableLen s) - 1
          \<and> selectedIndex (clampEffect prevLen s)
              = max 0 (min (selectedIndex s) (int (navigableLen s) - 1)))"
  using assms by (auto simp add: clampEffect_def clampIndex_def)

lemma demo_scanned_len: "navigableLen (demo_scanned\<lparr>selectedIndex := 9\<rparr>) = 5"
proof -
  have "currentPath demo_scanned = ''/p''"
    by (simp add: demo_scanned_def demo_measuring_def demo_def scan_defs demo_measure)
  then show ?thesis
    using demo_scanned_cache
    by (simp add: navigableLen_def getNavigableList_def demo_committed_def demo_sorted_def)
qed

theorem clampEffect_in_range_witness:
  "navigableLen (demo_scanned\<lparr>selectedIndex := 9\<rparr>) = 5
   \<and> selectedIndex (clampEffect 8 (demo_scanned\<lparr>selectedIndex := 9\<rparr>)) = 4
   \<and> navigableLen (demo\<lparr>cache := Map.empty, selectedIndex := 9\<rparr>) = 0
   \<and> selectedIndex (clampEffect 8 (demo\<lparr>cache := Map.empty, selectedIndex := 9\<rparr>)) = 0"
proof -
  have len0: "navigableLen (demo\<lparr>cache := Map.empty, selectedIndex := 9\<rparr>) = 0"
    by (simp add: navigableLen_def getNavigableList_def)
  have "selectedIndex (clampEffect 8 (demo_scanned\<lparr>selectedIndex := 9\<rparr>)) = 4"
    using clampEffect_in_range [of "demo_scanned\<lparr>selectedIndex := 9\<rparr>" 8] demo_scanned_len
    by simp
  moreover have "selectedIndex (clampEffect 8 (demo\<lparr>cache := Map.empty, selectedIndex := 9\<rparr>)) = 0"
    using clampEffect_in_range [of "demo\<lparr>cache := Map.empty, selectedIndex := 9\<rparr>" 8] len0
    by simp
  ultimately show ?thesis using demo_scanned_len len0 by simp
qed

subsection \<open>Deletion\<close>

lemma dirname_nonempty: "dirname p \<noteq> []"
proof (cases "p = []")
  case True
  then show ?thesis by (simp add: dirname_def)
next
  case False
  define r where
    "r = dropWhile (\<lambda>c. c \<noteq> CHR ''/'') (dropWhile (\<lambda>c. c = CHR ''/'') (rev (tl p)))"
  have eq: "dirname p =
      (if r = [] then (if hd p = CHR ''/'' then ''/'' else ''.'')
       else if hd p = CHR ''/'' \<and> length r = 1 then ''//''
       else take (length r) p)"
    using False unfolding dirname_def Let_def r_def by (simp only: if_False)
  show ?thesis
  proof (cases "r = []")
    case True
    then show ?thesis unfolding eq by simp
  next
    case nonempty: False
    then have "take (length r) p \<noteq> []" using False by simp
    then show ?thesis unfolding eq using nonempty by simp
  qed
qed

lemma dirname_examples:
  "dirname ''/p/b'' = ''/p''" "dirname ''/p'' = ''/''" "dirname ''/'' = ''/''"
  by (simp_all add: dirname_def)

lemma removeFromCache_target: "removeFromCache X c X = None"
  by (simp add: removeFromCache_def Let_def split: option.splits)

lemma removeFromCache_parent:
  assumes "dirname X \<noteq> X" and "c (dirname X) = Some pe"
  shows "removeFromCache X c (dirname X)
           = Some (pe\<lparr>alphaDirs := filter (\<lambda>d. d \<noteq> X) (alphaDirs pe),
                      dirs := map_option (filter (\<lambda>d. path d \<noteq> X)) (dirs pe)\<rparr>)"
  using assms by (simp add: removeFromCache_def Let_def)

lemma markScanning_None: "c q = None \<Longrightarrow> markScanning p force c q = None"
  by (auto simp add: markScanning_def split: option.splits)

lemma markScanning_lists:
  assumes "c q = Some e"
  shows "\<exists>e'. markScanning p force c q = Some e' \<and> alphaDirs e' = alphaDirs e \<and> dirs e' = dirs e"
  using assms by (auto simp add: markScanning_def split: option.splits)

text \<open>
  What a removal that succeeds does. \<open>cur\<close> is the current path of the closure of
  \<^verbatim>\<open>confirmDelete\<close>: the cache has no entry for X and the prompt is closed; if X's
  parent is another path and is cached, X is gone from the parent's child paths and
  from its sized children; the state's current path, cursor and viewport offset change
  only when the closure's path is X and X is not its own parent; and a forced scan is
  started with a fresh token, of the closure's path, or of X's parent when the
  closure's path is X.
\<close>

lemma deleteSucceeded_closure_effects:
  assumes "(X, cur) \<in> set (removals s)" and "s' = deleteSucceeded X cur now s"
  shows "cache s' X = None
       \<and> deletePrompt s' = None
       \<and> (\<forall>pe. dirname X \<noteq> X \<and> cache s (dirname X) = Some pe \<longrightarrow>
            (\<exists>pe'. cache s' (dirname X) = Some pe'
                 \<and> alphaDirs pe' = filter (\<lambda>d. d \<noteq> X) (alphaDirs pe)
                 \<and> dirs pe' = map_option (filter (\<lambda>d. path d \<noteq> X)) (dirs pe)
                 \<and> X \<notin> set (alphaDirs pe')
                 \<and> (\<forall>ds. dirs pe' = Some ds \<longrightarrow> X \<notin> path ` set ds)))
       \<and> (cur = X \<and> dirname X \<noteq> X \<longrightarrow>
            currentPath s' = dirname X \<and> selectedIndex s' = 0 \<and> viewOffset s' = 0)
       \<and> (cur \<noteq> X \<or> dirname X = X \<longrightarrow>
            currentPath s' = currentPath s \<and> selectedIndex s' = selectedIndex s
          \<and> viewOffset s' = viewOffset s)
       \<and> scanSeq s' = scanSeq s + 1
       \<and> tasks s' (scanSeq s') =
           Some \<lparr>tpath = (if cur = X then dirname X else cur),
                 tforce = True, tstage = Listing, lastDirsTs = 0\<rparr>"
proof -
  let ?q = "if cur = X then dirname X else cur"
  have cache': "cache s' = markScanning ?q True (removeFromCache X (cache s))"
    unfolding assms(2) using assms(1) by (simp add: deleteSucceeded_def triggerScan_def Let_def)
  have gone: "cache s' X = None"
    unfolding cache' by (rule markScanning_None) (rule removeFromCache_target)
  have prompt: "deletePrompt s' = None"
    unfolding assms(2) using assms(1) by (simp add: deleteSucceeded_def triggerScan_def Let_def)
  have parent: "\<exists>pe'. cache s' (dirname X) = Some pe'
                 \<and> alphaDirs pe' = filter (\<lambda>d. d \<noteq> X) (alphaDirs pe)
                 \<and> dirs pe' = map_option (filter (\<lambda>d. path d \<noteq> X)) (dirs pe)
                 \<and> X \<notin> set (alphaDirs pe')
                 \<and> (\<forall>ds. dirs pe' = Some ds \<longrightarrow> X \<notin> path ` set ds)"
    if "dirname X \<noteq> X" and "cache s (dirname X) = Some pe" for pe
  proof -
    have "removeFromCache X (cache s) (dirname X)
           = Some (pe\<lparr>alphaDirs := filter (\<lambda>d. d \<noteq> X) (alphaDirs pe),
                      dirs := map_option (filter (\<lambda>d. path d \<noteq> X)) (dirs pe)\<rparr>)"
      using that by (rule removeFromCache_parent)
    then have "\<exists>e'. markScanning ?q True (removeFromCache X (cache s)) (dirname X) = Some e'
        \<and> alphaDirs e' = alphaDirs (pe\<lparr>alphaDirs := filter (\<lambda>d. d \<noteq> X) (alphaDirs pe),
                      dirs := map_option (filter (\<lambda>d. path d \<noteq> X)) (dirs pe)\<rparr>)
        \<and> dirs e' = dirs (pe\<lparr>alphaDirs := filter (\<lambda>d. d \<noteq> X) (alphaDirs pe),
                      dirs := map_option (filter (\<lambda>d. path d \<noteq> X)) (dirs pe)\<rparr>)"
      by (rule markScanning_lists)
    then obtain pe' where pe': "cache s' (dirname X) = Some pe'"
      and a: "alphaDirs pe' = filter (\<lambda>d. d \<noteq> X) (alphaDirs pe)"
      and d: "dirs pe' = map_option (filter (\<lambda>d. path d \<noteq> X)) (dirs pe)"
      unfolding cache' by auto
    have "X \<notin> set (alphaDirs pe')" unfolding a by simp
    moreover have "\<forall>ds. dirs pe' = Some ds \<longrightarrow> X \<notin> path ` set ds"
      unfolding d by auto
    ultimately show ?thesis using pe' a d by blast
  qed
  have nav1: "cur = X \<and> dirname X \<noteq> X \<longrightarrow>
            currentPath s' = dirname X \<and> selectedIndex s' = 0 \<and> viewOffset s' = 0"
    unfolding assms(2) using assms(1)
    by (auto simp add: deleteSucceeded_def triggerScan_def Let_def dirname_nonempty)
  have nav2: "cur \<noteq> X \<or> dirname X = X \<longrightarrow>
            currentPath s' = currentPath s \<and> selectedIndex s' = selectedIndex s
          \<and> viewOffset s' = viewOffset s"
    unfolding assms(2) using assms(1)
    by (auto simp add: deleteSucceeded_def triggerScan_def Let_def dirname_nonempty)
  have seq: "scanSeq s' = scanSeq s + 1"
    unfolding assms(2) using assms(1) by (simp add: deleteSucceeded_scanSeq)
  have task: "tasks s' (scanSeq s') =
           Some \<lparr>tpath = ?q, tforce = True, tstage = Listing, lastDirsTs = 0\<rparr>"
    unfolding assms(2) using assms(1) by (simp add: deleteSucceeded_def triggerScan_def Let_def)
  from parent have parent': "\<forall>pe. dirname X \<noteq> X \<and> cache s (dirname X) = Some pe \<longrightarrow>
            (\<exists>pe'. cache s' (dirname X) = Some pe'
                 \<and> alphaDirs pe' = filter (\<lambda>d. d \<noteq> X) (alphaDirs pe)
                 \<and> dirs pe' = map_option (filter (\<lambda>d. path d \<noteq> X)) (dirs pe)
                 \<and> X \<notin> set (alphaDirs pe')
                 \<and> (\<forall>ds. dirs pe' = Some ds \<longrightarrow> X \<notin> path ` set ds))"
    by blast
  show ?thesis by (intro conjI gone prompt parent' nav1 nav2 seq task)
qed

text \<open>
  The closure's path is the state's current path at the moment \<^verbatim>\<open>y\<close> is pressed, and
  it stays the state's current path as long as the prompt is open: with a prompt,
  every key other than \<^verbatim>\<open>y\<close>, \<^verbatim>\<open>n\<close>, Return and Escape is ignored.
\<close>

lemma keyY_captures_currentPath:
  assumes "deletePrompt s = Some pr" and "pstatus pr = Confirm"
  shows "removals (keyY s) = removals s @ [(dpath pr, currentPath s)]
       \<and> map_option pstatus (deletePrompt (keyY s)) = Some Working
       \<and> currentPath (keyY s) = currentPath s"
  using assms by (simp add: keyY_def confirmDelete_def)

lemma keyLeft_with_prompt: "deletePrompt s = Some pr \<Longrightarrow> keyLeft now s = s"
  by (simp add: keyLeft_def)

lemma keyN_closes_while_working:
  assumes "deletePrompt s = Some pr" and "pstatus pr = Working"
  shows "deletePrompt (keyN s) = None \<and> removals (keyN s) = removals s"
  using assms by (simp add: keyN_def)

lemma demo_confirming_eq:
  "demo_confirming =
     demo_scanned\<lparr>selectedIndex := 1,
       deletePrompt := Some \<lparr>dpath = ''/p/b'', label = ''b'', pstatus = Confirm, perror = None\<rparr>\<rparr>"
proof -
  have "deletePrompt demo_scanned = None" "currentPath demo_scanned = ''/p''"
    by (simp_all add: demo_scanned_def demo_measuring_def demo_def scan_defs demo_measure)
  then show ?thesis
    using demo_scanned_cache
    by (simp add: demo_confirming_def run_def keyD_def getNavigableList_def demo_committed_def
        demo_sorted_def item_path_def basenameNoSlash_def basename_def Let_def)
qed

lemma demo_scanned_fields:
  "currentPath demo_scanned = ''/p''" "scanSeq demo_scanned = 1" "removals demo_scanned = []"
  "tasks demo_scanned = Map.empty" "cache demo_scanned = [''/p'' \<mapsto> demo_committed]"
  by (simp_all add: demo_scanned_def demo_measuring_def demo_def scan_defs demo_measure
      demo_entry_def demo_committed_def TOP_N_def demo_sorted_def fun_eq_iff)

lemma demo_left_eq:
  "demo_left =
     demo_scanned\<lparr>currentPath := ''/'', selectedIndex := 0, viewOffset := 0,
       elapsedStart := 3000, deletePrompt := None, currentSizeKb := None, scanSeq := 2,
       cache := [''/p'' \<mapsto> demo_committed, ''/'' \<mapsto> placeholder ''/''],
       tasks := [2 \<mapsto> \<lparr>tpath = ''/'', tforce = True, tstage = Listing, lastDirsTs = 0\<rparr>],
       removals := [(''/p/b'', ''/p'')]\<rparr>"
  by (simp add: demo_left_def demo_confirming_eq run_def keyY_def keyN_def keyLeft_def
      confirmDelete_def reselect_def visitEffect_def triggerScan_def markScanning_def
      demo_scanned_fields dirname_examples Let_def numeral_2_eq_2)

text \<open>
  Claim C5 says that after a confirmed deletion of X that succeeds, when X is not the
  current path, a forced rescan of the unchanged current path is started. The code
  starts the rescan of \<^verbatim>\<open>currentPath\<close> as the closure of \<^verbatim>\<open>confirmDelete\<close> holds it,
  and the prompt does not hold the user until the removal has ended: \<^verbatim>\<open>n\<close> closes it
  while the removal is running (the branch of \<^verbatim>\<open>y\<close> tests
  \<^verbatim>\<open>deletePrompt.status !== 'working'\<close>, the branch of \<^verbatim>\<open>n\<close> does not, and the prompt
  then reads \<^verbatim>\<open>Please wait\<close>). In the example the user confirms the deletion of
  \<^verbatim>\<open>/p/b\<close> in \<^verbatim>\<open>/p\<close>, presses \<^verbatim>\<open>n\<close> and goes up to \<^verbatim>\<open>/\<close>, which starts the scan of
  \<^verbatim>\<open>/\<close> with token 2. When the removal ends, the current path is \<^verbatim>\<open>/\<close>, and the code
  starts a forced scan of \<^verbatim>\<open>/p\<close> with token 3: the directory shown is not rescanned,
  and its scan in flight is superseded, so that its listing is dropped when it arrives.
\<close>

theorem deleteSucceeded_rescans_directory_left:
  "deletePrompt demo_confirming
     = Some \<lparr>dpath = ''/p/b'', label = ''b'', pstatus = Confirm, perror = None\<rparr>
   \<and> currentPath demo_confirming = ''/p''
   \<and> removals demo_left = [(''/p/b'', ''/p'')]
   \<and> deletePrompt demo_left = None
   \<and> currentPath demo_left = ''/''
   \<and> tasks demo_left 2 = Some \<lparr>tpath = ''/'', tforce = True, tstage = Listing, lastDirsTs = 0\<rparr>
   \<and> currentPath demo_removed = ''/''
   \<and> scanSeq demo_removed = 3
   \<and> tasks demo_removed 3
       = Some \<lparr>tpath = ''/p'', tforce = True, tstage = Listing, lastDirsTs = 0\<rparr>
   \<and> cache demo_removed ''/'' = Some (placeholder ''/'')
   \<and> cache (run demo_removed [Listed 2 [''/p''] 6000]) = cache demo_removed
   \<and> progressDirs (run demo_removed [Listed 2 [''/p''] 6000]) = None
   \<and> tasks (run demo_removed [Listed 2 [''/p''] 6000]) 2 = None"
proof -
  have removed: "demo_removed = deleteSucceeded ''/p/b'' ''/p'' 5000 demo_left"
    by (simp add: demo_removed_def run_def)
  have A: "deletePrompt demo_confirming
     = Some \<lparr>dpath = ''/p/b'', label = ''b'', pstatus = Confirm, perror = None\<rparr>"
    "currentPath demo_confirming = ''/p''"
    by (simp_all add: demo_confirming_eq demo_scanned_fields)
  have B: "removals demo_left = [(''/p/b'', ''/p'')]" "deletePrompt demo_left = None"
    "currentPath demo_left = ''/''"
    "tasks demo_left 2 = Some \<lparr>tpath = ''/'', tforce = True, tstage = Listing, lastDirsTs = 0\<rparr>"
    by (simp_all add: demo_left_eq)
  have C: "currentPath demo_removed = ''/''" "scanSeq demo_removed = 3"
    "tasks demo_removed 3
       = Some \<lparr>tpath = ''/p'', tforce = True, tstage = Listing, lastDirsTs = 0\<rparr>"
    "tasks demo_removed 2
       = Some \<lparr>tpath = ''/'', tforce = True, tstage = Listing, lastDirsTs = 0\<rparr>"
    "progressDirs demo_removed = None"
    by (simp_all add: removed demo_left_eq deleteSucceeded_def triggerScan_def Let_def
        dirname_examples demo_scanned_fields demo_scanned_def demo_measuring_def demo_def
        scan_defs demo_measure)
  have D: "cache demo_removed ''/'' = Some (placeholder ''/'')"
    by (simp add: removed demo_left_eq deleteSucceeded_def triggerScan_def Let_def
        dirname_examples removeFromCache_def markScanning_def demo_committed_def)
  have E: "run demo_removed [Listed 2 [''/p''] 6000] = finallyBlock 2 demo_removed"
    using C by (simp add: run_def listed_def)
  have F: "cache (finallyBlock 2 demo_removed) = cache demo_removed"
    "progressDirs (finallyBlock 2 demo_removed) = None"
    "tasks (finallyBlock 2 demo_removed) 2 = None"
    using C by (simp_all add: finallyBlock_def)
  show ?thesis
    unfolding E by (intro conjI A B C(1,2,3) D F)
qed

end
